theory Spec2Isabelle
  imports Main "HOL-Library.Sublist"
begin

section \<open>Buffer utilities of iostream.py\<close>

text \<open>
  A byte string is a list of characters (Python 2 \<open>str\<close>); a chunk deque is a list
  of byte strings whose head is the left end of the deque. Sizes are Python integers,
  hence \<open>int\<close>: the source compares them with \<open>remaining > 0\<close> and never
  slices with a non-positive bound.
\<close>

type_synonym bytes = string

text \<open>
  The \<open>while deque and remaining > 0\<close> loop of \<open>_merge_prefix\<close>. It returns the
  deque and the list \<open>prefix\<close> (here \<open>pfx\<close>) of popped pieces. A chunk longer than \<open>remaining\<close>
  is split: its tail goes back to the left end and the loop then stops because
  \<open>remaining\<close> has become 0.
\<close>

function merge_prefix_loop :: "bytes list \<Rightarrow> int \<Rightarrow> bytes list \<Rightarrow> bytes list \<times> bytes list" where
  "merge_prefix_loop deque remaining pfx =
     (case deque of
        [] \<Rightarrow> (deque, pfx)
      | chunk # rest \<Rightarrow>
          if remaining > 0 then
            (if int (length chunk) > remaining then
               merge_prefix_loop (drop (nat remaining) chunk # rest)
                 (remaining - int (length (take (nat remaining) chunk)))
                 (pfx @ [take (nat remaining) chunk])
             else merge_prefix_loop rest (remaining - int (length chunk)) (pfx @ [chunk]))
          else (deque, pfx))"
  by pat_completeness auto
termination
  by (relation "measure (\<lambda>(deque, remaining, pfx). length deque + nat remaining)") auto

declare merge_prefix_loop.simps [simp del]

definition merge_prefix :: "bytes list \<Rightarrow> int \<Rightarrow> bytes list" where
  "merge_prefix deque sz =
     (if length deque = 1 \<and> int (length (hd deque)) \<le> sz then deque
      else
        let (deque1, pfx) = merge_prefix_loop deque sz [];
            deque2 = (if pfx \<noteq> [] then concat pfx # deque1 else deque1)
        in if deque2 = [] then [[]] else deque2)"

definition double_prefix :: "bytes list \<Rightarrow> bytes list" where
  "double_prefix deque =
     (let new_len = max (int (length (deque ! 0)) * 2)
                        (int (length (deque ! 0)) + int (length (deque ! 1)))
      in merge_prefix deque new_len)"

text \<open>
  Python's \<open>s.find(sub)\<close>: the lowest index at which \<open>sub\<close> occurs in
  \<open>s\<close>, or \<open>None\<close> where Python returns \<open>-1\<close>.
\<close>

fun str_find :: "bytes \<Rightarrow> bytes \<Rightarrow> nat option" where
  "str_find [] sub = (if sub = [] then Some 0 else None)"
| "str_find (c # cs) sub =
     (if prefix sub (c # cs) then Some 0 else map_option Suc (str_find cs sub))"

section \<open>Data model\<close>

text \<open>
  The stream talks to two collaborators that are not part of iostream.py: the socket
  and the event loop. Both are modelled by what the stream can observe of them.

  The socket's answers are scripts: the outcome of each future \<open>recv\<close>/\<open>read\<close>,
  \<open>send\<close> and \<open>do_handshake\<close> call, consumed from the head. An exhausted
  script answers would-block (the handshake: needs-read). \<open>send_calls\<close> records the
  buffer passed to each \<open>send\<close>. A received empty string is end of file.
\<close>

datatype sock = Plain_socket | SSL_socket

datatype recv_result = Recv bytes | Recv_would_block | Recv_error

datatype send_result = Sent nat | Send_would_block | Send_error

datatype connect_result = Connect_ok | Connect_in_progress | Connect_error

datatype handshake_result =
    Hs_done
  | Hs_want_read
  | Hs_want_write
  | Hs_eof
  | Hs_ssl_error
  | Hs_other_ssl_error
  | Hs_conn_reset
  | Hs_other_socket_error

record net =
  connect_result :: connect_result
  so_error :: int
  recvs :: "recv_result list"
  sends :: "send_result list"
  handshakes :: "handshake_result list"
  send_calls :: "bytes list"

text \<open>
  Modelled from the spec: the event-loop constants \<open>READ\<close>, \<open>WRITE\<close>,
  \<open>ERROR\<close> (tornado.ioloop is not among the sources) are bit flags; a mask is the
  set of flags it contains, \<open>a | b\<close> is union and \<open>a & b\<close> is intersection.

  The event loop records what the stream asks of it: the mask registered for the
  descriptor by \<open>add_handler\<close>/\<open>update_handler\<close>/\<open>remove_handler\<close>, and every
  \<open>add_callback\<close> call in order. A callback handed to the loop is either the
  \<open>wrapper\<close> closure of \<open>_run_callback\<close>, which holds the user callback and its
  arguments, or the bound method \<open>self.close\<close>. \<open>started\<close> counts the scheduled
  entries the loop has begun to run (it runs them first in, first out).
\<close>

datatype io_flag = READ | WRITE | ERROR

type_synonym callback = nat

datatype scheduled = Wrapper "callback option" "bytes option" | Bound_close

record ioloop =
  handler :: "io_flag set option"
  callbacks :: "scheduled list"
  started :: nat

datatype exn = IOError string | Socket_error | SSLError | AssertionError | AttributeError

datatype 'a result = Return 'a | Raise exn

text \<open>
  A compiled regular expression is modelled by its \<open>search\<close>: applied to a chunk
  it gives \<open>m.end()\<close> of the first match, or \<open>None\<close>.
\<close>

type_synonym regex = "bytes \<Rightarrow> nat option"

text \<open>
  The attributes of \<open>IOStream\<close> and \<open>SSLIOStream\<close>. \<open>io_state\<close> is
  \<open>_state\<close>, \<open>read_bytes_fld\<close> is \<open>_read_bytes\<close> and
  \<open>read_until_close_fld\<close> is \<open>_read_until_close\<close> (the methods keep the plain
  names). \<open>is_ssl\<close> tells which class the object has; the four attributes after it
  belong to \<open>SSLIOStream\<close>. The \<open>error\<close> attribute (the last failure, kept for
  inspection only) and logging are left out: no control flow reads them.
\<close>

record iostream =
  socket :: "sock option"
  net :: net
  io_loop :: ioloop
  max_buffer_size :: int
  read_chunk_size :: int
  read_buffer :: "bytes list"
  write_buffer :: "bytes list"
  read_buffer_size :: int
  write_buffer_frozen :: bool
  read_delimiter :: "bytes option"
  read_regex :: "regex option"
  read_bytes_fld :: "int option"
  read_until_close_fld :: bool
  read_callback :: "callback option"
  streaming_callback :: "callback option"
  write_callback :: "callback option"
  close_callback :: "callback option"
  connect_callback :: "callback option"
  connecting :: bool
  io_state :: "io_flag set option"
  pending_callbacks :: int
  is_ssl :: bool
  ssl_accepting :: bool
  handshake_reading :: bool
  handshake_writing :: bool
  ssl_connect_callback :: "callback option"

definition IOStream_init :: "sock \<Rightarrow> net \<Rightarrow> int \<Rightarrow> int \<Rightarrow> iostream" where
  "IOStream_init sk nt max_size chunk_size =
     \<lparr> socket = Some sk, net = nt,
       io_loop = \<lparr> handler = None, callbacks = [], started = 0 \<rparr>,
       max_buffer_size = max_size, read_chunk_size = chunk_size,
       read_buffer = [], write_buffer = [], read_buffer_size = 0,
       write_buffer_frozen = False,
       read_delimiter = None, read_regex = None, read_bytes_fld = None,
       read_until_close_fld = False,
       read_callback = None, streaming_callback = None, write_callback = None,
       close_callback = None, connect_callback = None,
       connecting = False, io_state = None, pending_callbacks = 0,
       is_ssl = False, ssl_accepting = False, handshake_reading = False,
       handshake_writing = False, ssl_connect_callback = None \<rparr>"

definition SSLIOStream_init :: "sock \<Rightarrow> net \<Rightarrow> int \<Rightarrow> int \<Rightarrow> iostream" where
  "SSLIOStream_init sk nt max_size chunk_size =
     (IOStream_init sk nt max_size chunk_size)
       \<lparr> is_ssl := True, ssl_accepting := True, handshake_reading := False,
         handshake_writing := False, ssl_connect_callback := None \<rparr>"

section \<open>Callback scheduling, consuming, closing\<close>

definition run_callback :: "callback option \<Rightarrow> bytes option \<Rightarrow> iostream \<Rightarrow> iostream" where
  "run_callback callback args s =
     s\<lparr> pending_callbacks := pending_callbacks s + 1,
        io_loop := (io_loop s)\<lparr> callbacks := callbacks (io_loop s) @ [Wrapper callback args] \<rparr> \<rparr>"

text \<open>
  \<open>_consume(loc)\<close>. \<open>popleft\<close> cannot fail: \<open>_merge_prefix\<close> leaves at least
  one chunk (lemma \<open>merge_prefix_nonempty\<close> below).
\<close>

definition consume :: "int \<Rightarrow> iostream \<Rightarrow> bytes \<times> iostream" where
  "consume loc s =
     (if loc = 0 then ([], s)
      else
        let buf = merge_prefix (read_buffer s) loc
        in (hd buf, s\<lparr> read_buffer := tl buf, read_buffer_size := read_buffer_size s - loc \<rparr>))"

definition maybe_run_close_callback :: "iostream \<Rightarrow> iostream" where
  "maybe_run_close_callback s =
     (if socket s = None \<and> close_callback s \<noteq> None \<and> pending_callbacks s = 0 then
        let cb = close_callback s
        in run_callback cb None (s\<lparr> close_callback := None \<rparr>)
      else s)"

definition close :: "iostream \<Rightarrow> iostream" where
  "close s =
     maybe_run_close_callback
       (if socket s \<noteq> None then
          let s1 = (if read_until_close_fld s then
                      let callback = read_callback s;
                          s' = s\<lparr> read_callback := None, read_until_close_fld := False \<rparr>;
                          (data, s'') = consume (read_buffer_size s') s'
                      in run_callback callback (Some data) s''
                    else s);
              s2 = (if io_state s1 \<noteq> None then
                      s1\<lparr> io_loop := (io_loop s1)\<lparr> handler := None \<rparr>, io_state := None \<rparr>
                    else s1)
          in s2\<lparr> socket := None \<rparr>
        else s)"

definition reading :: "iostream \<Rightarrow> bool" where
  "reading s = ((is_ssl s \<and> handshake_reading s) \<or> read_callback s \<noteq> None)"

definition writing :: "iostream \<Rightarrow> bool" where
  "writing s = ((is_ssl s \<and> handshake_writing s) \<or> write_buffer s \<noteq> [])"

definition closed :: "iostream \<Rightarrow> bool" where
  "closed s = (socket s = None)"

definition check_closed :: "iostream \<Rightarrow> unit result" where
  "check_closed s = (if socket s = None then Raise (IOError ''Stream is closed'') else Return ())"

definition add_io_state :: "io_flag set \<Rightarrow> iostream \<Rightarrow> iostream" where
  "add_io_state state s =
     (if socket s = None then s
      else
        case io_state s of
          None \<Rightarrow>
            s\<lparr> io_state := Some ({ERROR} \<union> state),
               io_loop := (io_loop s)\<lparr> handler := Some ({ERROR} \<union> state) \<rparr> \<rparr>
        | Some cur \<Rightarrow>
            if cur \<inter> state = {} then
              s\<lparr> io_state := Some (cur \<union> state),
                 io_loop := (io_loop s)\<lparr> handler := Some (cur \<union> state) \<rparr> \<rparr>
            else s)"

definition maybe_add_error_listener :: "iostream \<Rightarrow> iostream" where
  "maybe_add_error_listener s =
     (if io_state s = None \<and> pending_callbacks s = 0 then
        (if socket s = None then maybe_run_close_callback s
         else add_io_state {READ} s)
      else s)"

definition set_close_callback :: "callback option \<Rightarrow> iostream \<Rightarrow> iostream" where
  "set_close_callback callback s = s\<lparr> close_callback := callback \<rparr>"

section \<open>Read engine\<close>

text \<open>
  \<open>IOStream._read_from_socket\<close>: one \<open>recv\<close>. \<open>Return None\<close> is the
  source's \<open>None\<close> (nothing to read, or end of file after closing). On a stream
  whose socket is gone, \<open>self.socket.recv\<close> raises \<open>AttributeError\<close>.
\<close>

definition IOStream_read_from_socket :: "iostream \<Rightarrow> bytes option result \<times> iostream" where
  "IOStream_read_from_socket s =
     (if socket s = None then (Raise AttributeError, s)
      else
        case recvs (net s) of
          [] \<Rightarrow> (Return None, s)
        | r # rest \<Rightarrow>
            let s1 = s\<lparr> net := (net s)\<lparr> recvs := rest \<rparr> \<rparr>
            in (case r of
                  Recv_would_block \<Rightarrow> (Return None, s1)
                | Recv_error \<Rightarrow> (Raise Socket_error, s1)
                | Recv chunk \<Rightarrow>
                    if chunk = [] then (Return None, close s1)
                    else (Return (Some chunk), s1)))"

text \<open>
  \<open>SSLIOStream._read_from_socket\<close>: nothing is read while the handshake is
  unfinished; afterwards \<open>socket.read\<close> has the same outcomes as \<open>recv\<close>
  (needs-read and would-block both give \<open>None\<close>, \<open>ssl.SSLError\<close> is a
  \<open>socket.error\<close>).
\<close>

definition SSLIOStream_read_from_socket :: "iostream \<Rightarrow> bytes option result \<times> iostream" where
  "SSLIOStream_read_from_socket s =
     (if ssl_accepting s then (Return None, s) else IOStream_read_from_socket s)"

definition read_from_socket :: "iostream \<Rightarrow> bytes option result \<times> iostream" where
  "read_from_socket s =
     (if is_ssl s then SSLIOStream_read_from_socket s else IOStream_read_from_socket s)"

definition read_to_buffer :: "iostream \<Rightarrow> int result \<times> iostream" where
  "read_to_buffer s =
     (case read_from_socket s of
        (Raise e, s1) \<Rightarrow>
          if e = Socket_error then (Raise e, close s1) else (Raise e, s1)
      | (Return None, s1) \<Rightarrow> (Return 0, s1)
      | (Return (Some chunk), s1) \<Rightarrow>
          let s2 = s1\<lparr> read_buffer := read_buffer s1 @ [chunk],
                       read_buffer_size := read_buffer_size s1 + int (length chunk) \<rparr>
          in if read_buffer_size s2 \<ge> max_buffer_size s2 then
               (Raise (IOError ''Reached maximum read buffer size''), close s2)
             else (Return (int (length chunk)), s2))"

lemma net_run_callback [simp]: "net (run_callback cb args s) = net s"
  by (simp add: run_callback_def)

lemma net_consume [simp]: "net (snd (consume loc s)) = net s"
  by (simp add: consume_def Let_def)

lemma net_maybe_run_close_callback [simp]: "net (maybe_run_close_callback s) = net s"
  by (simp add: maybe_run_close_callback_def Let_def)

lemma net_close [simp]: "net (close s) = net s"
  by (simp add: close_def Let_def split_beta)

lemma read_from_socket_recvs:
  "read_from_socket s = (Return (Some chunk), s1) \<Longrightarrow>
     length (recvs (net s1)) < length (recvs (net s)) \<and> chunk \<noteq> []"
  by (auto simp: read_from_socket_def SSLIOStream_read_from_socket_def
        IOStream_read_from_socket_def Let_def
      split: if_splits list.splits recv_result.splits)

lemma read_to_buffer_recvs:
  "read_to_buffer s = (Return n, s1) \<Longrightarrow> n \<noteq> 0 \<Longrightarrow>
     length (recvs (net s1)) < length (recvs (net s))"
  by (auto simp: read_to_buffer_def Let_def
      split: prod.splits result.splits option.splits if_splits
      dest: read_from_socket_recvs)

text \<open>
  The loop of \<open>_handle_read\<close>: \<open>while True: if self._read_to_buffer() == 0: break\<close>.
  Every round that goes on has taken one answer from the socket's script.
\<close>

function read_loop :: "iostream \<Rightarrow> unit result \<times> iostream" where
  "read_loop s =
     (case read_to_buffer s of
        (Raise e, s1) \<Rightarrow> (Raise e, s1)
      | (Return n, s1) \<Rightarrow> if n = 0 then (Return (), s1) else read_loop s1)"
  by pat_completeness auto
termination
  by (relation "measure (\<lambda>s. length (recvs (net s)))")
     (auto dest: read_to_buffer_recvs [OF sym])

declare read_loop.simps [simp del]

text \<open>
  The loop of \<open>_try_inline_read\<close>, which checks \<open>_check_closed\<close> after every
  read that made progress.
\<close>

function inline_read_loop :: "iostream \<Rightarrow> unit result \<times> iostream" where
  "inline_read_loop s =
     (case read_to_buffer s of
        (Raise e, s1) \<Rightarrow> (Raise e, s1)
      | (Return n, s1) \<Rightarrow>
          if n = 0 then (Return (), s1)
          else (case check_closed s1 of
                  Raise e \<Rightarrow> (Raise e, s1)
                | Return _ \<Rightarrow> inline_read_loop s1))"
  by pat_completeness auto
termination
  by (relation "measure (\<lambda>s. length (recvs (net s)))")
     (auto dest: read_to_buffer_recvs [OF sym])

declare inline_read_loop.simps [simp del]

text \<open>
  The search loops of \<open>_read_from_buffer\<close> (delimiter and regex have the same
  loop): search the first chunk; when nothing is found and more than one chunk is
  left, \<open>_double_prefix\<close> and search again. \<open>search\<close> gives the number of bytes
  to consume: \<open>loc + len(delimiter)\<close>, or \<open>m.end()\<close>. The loop is entered with
  a non-empty buffer only. It does not terminate when the first two chunks are both
  empty and the search fails on the empty chunk (\<open>_double_prefix\<close> then asks for
  0 bytes and changes nothing): the result is \<open>None\<close> then.
\<close>

partial_function (option) search_loop ::
  "(bytes \<Rightarrow> nat option) \<Rightarrow> bytes list \<Rightarrow> (nat option \<times> bytes list) option" where
  "search_loop search buffer =
     (case search (hd buffer) of
        Some n \<Rightarrow> Some (Some n, buffer)
      | None \<Rightarrow>
          if length buffer = 1 then Some (None, buffer)
          else search_loop search (double_prefix buffer))"

definition delimiter_search :: "bytes \<Rightarrow> bytes \<Rightarrow> nat option" where
  "delimiter_search delimiter chunk =
     (case str_find chunk delimiter of
        None \<Rightarrow> None
      | Some loc \<Rightarrow> Some (loc + length delimiter))"

text \<open>
  \<open>_read_from_buffer\<close>. \<open>stream_step\<close> is its first \<open>if\<close> (the streaming
  callback takes what is buffered, capped by the remaining count of an exact-count
  read); the rest tries to complete the armed read.
\<close>

definition stream_step :: "iostream \<Rightarrow> iostream" where
  "stream_step s =
     (if streaming_callback s \<noteq> None \<and> read_buffer_size s \<noteq> 0 then
        let bytes_to_consume =
              (case read_bytes_fld s of
                 None \<Rightarrow> read_buffer_size s
               | Some n \<Rightarrow> min n (read_buffer_size s));
            s1 = (case read_bytes_fld s of
                    None \<Rightarrow> s
                  | Some n \<Rightarrow> s\<lparr> read_bytes_fld := Some (n - bytes_to_consume) \<rparr>);
            (data, s2) = consume bytes_to_consume s1
        in run_callback (streaming_callback s2) (Some data) s2
      else s)"

definition finish_search ::
  "iostream \<Rightarrow> (iostream \<Rightarrow> iostream) \<Rightarrow> (nat option \<times> bytes list) option
     \<Rightarrow> (bool \<times> iostream) option" where
  "finish_search s clear_mode found =
     (case found of
        None \<Rightarrow> None
      | Some (None, buffer) \<Rightarrow> Some (False, s\<lparr> read_buffer := buffer \<rparr>)
      | Some (Some n, buffer) \<Rightarrow>
          let callback = read_callback s;
              s1 = clear_mode (s\<lparr> read_buffer := buffer, read_callback := None,
                                  streaming_callback := None \<rparr>);
              (data, s2) = consume (int n) s1
          in Some (True, run_callback callback (Some data) s2))"

definition read_from_buffer :: "iostream \<Rightarrow> (bool \<times> iostream) option" where
  "read_from_buffer s0 =
     (let s = stream_step s0 in
      if read_bytes_fld s \<noteq> None \<and> read_buffer_size s \<ge> the (read_bytes_fld s) then
        let num_bytes = the (read_bytes_fld s);
            callback = read_callback s;
            s1 = s\<lparr> read_callback := None, streaming_callback := None,
                     read_bytes_fld := None \<rparr>;
            (data, s2) = consume num_bytes s1
        in Some (True, run_callback callback (Some data) s2)
      else if read_delimiter s \<noteq> None then
        (if read_buffer s \<noteq> [] then
           finish_search s (\<lambda>s'. s'\<lparr> read_delimiter := None \<rparr>)
             (search_loop (delimiter_search (the (read_delimiter s))) (read_buffer s))
         else Some (False, s))
      else if read_regex s \<noteq> None then
        (if read_buffer s \<noteq> [] then
           finish_search s (\<lambda>s'. s'\<lparr> read_regex := None \<rparr>)
             (search_loop (the (read_regex s)) (read_buffer s))
         else Some (False, s))
      else Some (False, s))"

section \<open>Write engine\<close>

text \<open>
  One round of the \<open>while self._write_buffer\<close> loop of
  \<open>IOStream._handle_write\<close>, entered with a non-empty write buffer. The round
  ends by going on (\<open>Continue\<close>), by \<open>break\<close>, or by the \<open>return\<close> after a
  socket error. On a stream whose socket is gone \<open>self.socket.send\<close> raises
  \<open>AttributeError\<close>, which the \<open>except socket.error\<close> clause does not catch.
\<close>

datatype loop_exit = Continue | Break | Exit_return

definition handle_write_round :: "iostream \<Rightarrow> loop_exit result \<times> iostream" where
  "handle_write_round s =
     (let s1 = (if \<not> write_buffer_frozen s then
                  s\<lparr> write_buffer := merge_prefix (write_buffer s) (128 * 1024) \<rparr>
                else s)
      in if socket s1 = None then (Raise AttributeError, s1)
         else
           let data = hd (write_buffer s1);
               s2 = s1\<lparr> net := (net s1)\<lparr> send_calls := send_calls (net s1) @ [data] \<rparr> \<rparr>
           in (case sends (net s2) of
                 [] \<Rightarrow> (Return Break, s2\<lparr> write_buffer_frozen := True \<rparr>)
               | r # rest \<Rightarrow>
                   let s3 = s2\<lparr> net := (net s2)\<lparr> sends := rest \<rparr> \<rparr>
                   in (case r of
                         Send_would_block \<Rightarrow> (Return Break, s3\<lparr> write_buffer_frozen := True \<rparr>)
                       | Send_error \<Rightarrow> (Return Exit_return, close s3)
                       | Sent num_bytes \<Rightarrow>
                           if num_bytes = 0 then
                             (Return Break, s3\<lparr> write_buffer_frozen := True \<rparr>)
                           else
                             (Return Continue,
                              s3\<lparr> write_buffer_frozen := False,
                                  write_buffer :=
                                    tl (merge_prefix (write_buffer s3) (int num_bytes)) \<rparr>))))"

lemma handle_write_round_sends:
  "handle_write_round s = (Return Continue, s1) \<Longrightarrow>
     length (sends (net s1)) < length (sends (net s))"
  by (auto simp: handle_write_round_def Let_def
      split: if_splits list.splits send_result.splits)

function handle_write_loop :: "iostream \<Rightarrow> loop_exit result \<times> iostream" where
  "handle_write_loop s =
     (if write_buffer s \<noteq> [] then
        (case handle_write_round s of
           (Return Continue, s1) \<Rightarrow> handle_write_loop s1
         | (r, s1) \<Rightarrow> (r, s1))
      else (Return Continue, s))"
  by pat_completeness auto
termination
  by (relation "measure (\<lambda>s. length (sends (net s)))")
     (auto dest: handle_write_round_sends [OF sym])

declare handle_write_loop.simps [simp del]

definition IOStream_handle_write :: "iostream \<Rightarrow> unit result \<times> iostream" where
  "IOStream_handle_write s =
     (case handle_write_loop s of
        (Raise e, s1) \<Rightarrow> (Raise e, s1)
      | (Return Exit_return, s1) \<Rightarrow> (Return (), s1)
      | (Return _, s1) \<Rightarrow>
          if write_buffer s1 = [] \<and> write_callback s1 \<noteq> None then
            let callback = write_callback s1
            in (Return (), run_callback callback None (s1\<lparr> write_callback := None \<rparr>))
          else (Return (), s1))"

section \<open>TLS handshake\<close>

text \<open>
  \<open>SSLIOStream._do_ssl_handshake\<close>. \<open>do_handshake\<close> exists on a wrapped socket
  only. \<open>Hs_other_ssl_error\<close> is an \<open>ssl.SSLError\<close> that no branch names (it is
  raised again); \<open>Hs_other_socket_error\<close> is a \<open>socket.error\<close> other than
  connection aborted or reset, which the second \<open>except\<close> clause swallows.
\<close>

definition do_ssl_handshake :: "iostream \<Rightarrow> unit result \<times> iostream" where
  "do_ssl_handshake s =
     (let s1 = s\<lparr> handshake_reading := False, handshake_writing := False \<rparr>
      in if socket s1 \<noteq> Some SSL_socket then (Raise AttributeError, s1)
         else
           let r = (case handshakes (net s1) of [] \<Rightarrow> Hs_want_read | r # _ \<Rightarrow> r);
               s2 = s1\<lparr> net := (net s1)\<lparr> handshakes := tl (handshakes (net s1)) \<rparr> \<rparr>
           in (case r of
                 Hs_want_read \<Rightarrow> (Return (), s2\<lparr> handshake_reading := True \<rparr>)
               | Hs_want_write \<Rightarrow> (Return (), s2\<lparr> handshake_writing := True \<rparr>)
               | Hs_eof \<Rightarrow> (Return (), close s2)
               | Hs_ssl_error \<Rightarrow> (Return (), close s2)
               | Hs_other_ssl_error \<Rightarrow> (Raise SSLError, s2)
               | Hs_conn_reset \<Rightarrow> (Return (), close s2)
               | Hs_other_socket_error \<Rightarrow> (Return (), s2)
               | Hs_done \<Rightarrow>
                   let s3 = s2\<lparr> ssl_accepting := False \<rparr>
                   in if ssl_connect_callback s3 \<noteq> None then
                        let callback = ssl_connect_callback s3
                        in (Return (),
                            run_callback callback None (s3\<lparr> ssl_connect_callback := None \<rparr>))
                      else (Return (), s3)))"

section \<open>Event handlers\<close>

definition IOStream_handle_read :: "iostream \<Rightarrow> (unit result \<times> iostream) option" where
  "IOStream_handle_read s =
     (case read_loop (s\<lparr> pending_callbacks := pending_callbacks s + 1 \<rparr>) of
        (Raise e, s1) \<Rightarrow>
          Some (Return (), close (s1\<lparr> pending_callbacks := pending_callbacks s1 - 1 \<rparr>))
      | (Return _, s1) \<Rightarrow>
          (case read_from_buffer (s1\<lparr> pending_callbacks := pending_callbacks s1 - 1 \<rparr>) of
             None \<Rightarrow> None
           | Some (True, s2) \<Rightarrow> Some (Return (), s2)
           | Some (False, s2) \<Rightarrow> Some (Return (), maybe_run_close_callback s2)))"

definition handle_read :: "iostream \<Rightarrow> (unit result \<times> iostream) option" where
  "handle_read s =
     (if is_ssl s then
        (if ssl_accepting s then Some (do_ssl_handshake s) else IOStream_handle_read s)
      else IOStream_handle_read s)"

definition handle_write :: "iostream \<Rightarrow> unit result \<times> iostream" where
  "handle_write s =
     (if is_ssl s then
        (if ssl_accepting s then do_ssl_handshake s else IOStream_handle_write s)
      else IOStream_handle_write s)"

definition IOStream_handle_connect :: "iostream \<Rightarrow> unit result \<times> iostream" where
  "IOStream_handle_connect s =
     (if socket s = None then (Raise AttributeError, s)
      else
        let err = so_error (net s)
        in if err \<noteq> 0 then (Return (), close s)
           else
             let s1 = (if connect_callback s \<noteq> None then
                         let callback = connect_callback s
                         in run_callback callback None (s\<lparr> connect_callback := None \<rparr>)
                       else s)
             in (Return (), s1\<lparr> connecting := False \<rparr>))"

text \<open>
  \<open>SSLIOStream._handle_connect\<close> replaces the socket by the wrapped one and then
  runs the base method.
\<close>

definition SSLIOStream_handle_connect :: "iostream \<Rightarrow> unit result \<times> iostream" where
  "SSLIOStream_handle_connect s =
     (if socket s = None then (Raise AttributeError, s)
      else IOStream_handle_connect (s\<lparr> socket := Some SSL_socket \<rparr>))"

definition handle_connect :: "iostream \<Rightarrow> unit result \<times> iostream" where
  "handle_connect s =
     (if is_ssl s then SSLIOStream_handle_connect s else IOStream_handle_connect s)"

text \<open>
  \<open>_handle_events\<close>. \<open>handle_events_write\<close> is the \<open>if events & WRITE\<close> block;
  \<open>update_interest\<close> is the recomputation of the interest mask at the end, whose
  assertion fails when the stream is not registered. Every exception is caught, the
  stream is closed and the exception raised again.
\<close>

definition handle_events_write :: "io_flag set \<Rightarrow> iostream \<Rightarrow> unit result \<times> iostream" where
  "handle_events_write events s =
     (if WRITE \<in> events then
        (case (if connecting s then handle_connect s else (Return (), s)) of
           (Raise e, s1) \<Rightarrow> (Raise e, s1)
         | (Return _, s1) \<Rightarrow> handle_write s1)
      else (Return (), s))"

definition update_interest :: "iostream \<Rightarrow> unit result \<times> iostream" where
  "update_interest s =
     (let state0 = {ERROR} \<union> (if reading s then {READ} else {})
                          \<union> (if writing s then {WRITE} else {});
          state = (if state0 = {ERROR} then state0 \<union> {READ} else state0)
      in if Some state \<noteq> io_state s then
           (if io_state s = None then (Raise AssertionError, s)
            else (Return (),
                  s\<lparr> io_state := Some state,
                     io_loop := (io_loop s)\<lparr> handler := Some state \<rparr> \<rparr>))
         else (Return (), s))"

definition handle_events_body :: "io_flag set \<Rightarrow> iostream \<Rightarrow> (unit result \<times> iostream) option" where
  "handle_events_body events s =
     (case (if READ \<in> events then handle_read s else Some (Return (), s)) of
        None \<Rightarrow> None
      | Some (Raise e, s1) \<Rightarrow> Some (Raise e, s1)
      | Some (Return _, s1) \<Rightarrow>
          if socket s1 = None then Some (Return (), s1)
          else
            (case handle_events_write events s1 of
               (Raise e, s2) \<Rightarrow> Some (Raise e, s2)
             | (Return _, s2) \<Rightarrow>
                 if socket s2 = None then Some (Return (), s2)
                 else if ERROR \<in> events then
                   Some (Return (),
                         s2\<lparr> io_loop := (io_loop s2)
                               \<lparr> callbacks := callbacks (io_loop s2) @ [Bound_close] \<rparr> \<rparr>)
                 else Some (update_interest s2)))"

definition handle_events :: "io_flag set \<Rightarrow> iostream \<Rightarrow> (unit result \<times> iostream) option" where
  "handle_events events s =
     (if socket s = None then Some (Return (), s)
      else
        case handle_events_body events s of
          None \<Rightarrow> None
        | Some (Raise e, s1) \<Rightarrow> Some (Raise e, close s1)
        | Some (Return _, s1) \<Rightarrow> Some (Return (), s1))"

section \<open>Public operations\<close>

definition set_read_callback :: "callback \<Rightarrow> iostream \<Rightarrow> unit result \<times> iostream" where
  "set_read_callback callback s =
     (if read_callback s \<noteq> None then (Raise AssertionError, s)
      else (Return (), s\<lparr> read_callback := Some callback \<rparr>))"

definition try_inline_read :: "iostream \<Rightarrow> (unit result \<times> iostream) option" where
  "try_inline_read s =
     (case read_from_buffer s of
        None \<Rightarrow> None
      | Some (True, s1) \<Rightarrow> Some (Return (), s1)
      | Some (False, s1) \<Rightarrow>
          (case check_closed s1 of
             Raise e \<Rightarrow> Some (Raise e, s1)
           | Return _ \<Rightarrow>
               (case inline_read_loop (s1\<lparr> pending_callbacks := pending_callbacks s1 + 1 \<rparr>) of
                  (Raise e, s2) \<Rightarrow>
                    Some (Raise e, s2\<lparr> pending_callbacks := pending_callbacks s2 - 1 \<rparr>)
                | (Return _, s2) \<Rightarrow>
                    (case read_from_buffer
                            (s2\<lparr> pending_callbacks := pending_callbacks s2 - 1 \<rparr>) of
                       None \<Rightarrow> None
                     | Some (True, s3) \<Rightarrow> Some (Return (), s3)
                     | Some (False, s3) \<Rightarrow> Some (Return (), maybe_add_error_listener s3)))))"

definition read_until_regex :: "regex \<Rightarrow> callback \<Rightarrow> iostream \<Rightarrow> (unit result \<times> iostream) option" where
  "read_until_regex regex callback s =
     (case set_read_callback callback s of
        (Raise e, s1) \<Rightarrow> Some (Raise e, s1)
      | (Return _, s1) \<Rightarrow> try_inline_read (s1\<lparr> read_regex := Some regex \<rparr>))"

definition read_until :: "bytes \<Rightarrow> callback \<Rightarrow> iostream \<Rightarrow> (unit result \<times> iostream) option" where
  "read_until delimiter callback s =
     (case set_read_callback callback s of
        (Raise e, s1) \<Rightarrow> Some (Raise e, s1)
      | (Return _, s1) \<Rightarrow> try_inline_read (s1\<lparr> read_delimiter := Some delimiter \<rparr>))"

definition read_bytes ::
  "int \<Rightarrow> callback \<Rightarrow> callback option \<Rightarrow> iostream \<Rightarrow> (unit result \<times> iostream) option" where
  "read_bytes num_bytes callback streaming_cb s =
     (case set_read_callback callback s of
        (Raise e, s1) \<Rightarrow> Some (Raise e, s1)
      | (Return _, s1) \<Rightarrow>
          try_inline_read
            (s1\<lparr> read_bytes_fld := Some num_bytes, streaming_callback := streaming_cb \<rparr>))"

definition read_until_close ::
  "callback \<Rightarrow> callback option \<Rightarrow> iostream \<Rightarrow> unit result \<times> iostream" where
  "read_until_close callback streaming_cb s =
     (case set_read_callback callback s of
        (Raise e, s1) \<Rightarrow> (Raise e, s1)
      | (Return _, s1) \<Rightarrow>
          let s2 = s1\<lparr> streaming_callback := streaming_cb \<rparr>
          in if closed s2 then
               let s3 = (if streaming_callback s2 \<noteq> None then
                           let (data, s') = consume (read_buffer_size s2) s2
                           in run_callback (streaming_callback s2) (Some data) s'
                         else s2);
                   (data, s4) = consume (read_buffer_size s3) s3;
                   s5 = run_callback (read_callback s3) (Some data) s4
               in (Return (), s5\<lparr> streaming_callback := None, read_callback := None \<rparr>)
             else
               (Return (),
                add_io_state {READ}
                  (s2\<lparr> read_until_close_fld := True, streaming_callback := streaming_cb \<rparr>)))"

text \<open>
  \<open>write\<close> (here \<open>IOStream_write\<close>: \<open>write\<close> is a keyword) cuts data longer than 128 KiB into pieces of that size
  (\<open>range(0, len(data), WRITE_BUFFER_CHUNK_SIZE)\<close>).
\<close>

definition WRITE_BUFFER_CHUNK_SIZE :: nat where
  "WRITE_BUFFER_CHUNK_SIZE = 128 * 1024"

function split_chunks :: "nat \<Rightarrow> bytes \<Rightarrow> bytes list" where
  "split_chunks n data =
     (if data = [] \<or> n = 0 then [] else take n data # split_chunks n (drop n data))"
  by pat_completeness auto
termination
  by (relation "measure (\<lambda>(n, data). length data)") auto

declare split_chunks.simps [simp del]

definition IOStream_write :: "bytes \<Rightarrow> callback option \<Rightarrow> iostream \<Rightarrow> unit result \<times> iostream" where
  "IOStream_write data callback s =
     (case check_closed s of
        Raise e \<Rightarrow> (Raise e, s)
      | Return _ \<Rightarrow>
          let s1 = (if data \<noteq> [] then
                      (if length data > WRITE_BUFFER_CHUNK_SIZE then
                         s\<lparr> write_buffer :=
                              write_buffer s @ split_chunks WRITE_BUFFER_CHUNK_SIZE data \<rparr>
                       else s\<lparr> write_buffer := write_buffer s @ [data] \<rparr>)
                    else s);
              s2 = s1\<lparr> write_callback := callback \<rparr>
          in if \<not> connecting s2 then
               (case handle_write s2 of
                  (Raise e, s3) \<Rightarrow> (Raise e, s3)
                | (Return _, s3) \<Rightarrow>
                    let s4 = (if write_buffer s3 \<noteq> [] then add_io_state {WRITE} s3 else s3)
                    in (Return (), maybe_add_error_listener s4))
             else (Return (), s2))"

definition IOStream_connect :: "callback option \<Rightarrow> iostream \<Rightarrow> unit result \<times> iostream" where
  "IOStream_connect callback s =
     (let s1 = s\<lparr> connecting := True \<rparr>
      in if socket s1 = None then (Raise AttributeError, s1)
         else
           (case connect_result (net s1) of
              Connect_error \<Rightarrow> (Return (), close s1)
            | _ \<Rightarrow> (Return (), add_io_state {WRITE} (s1\<lparr> connect_callback := callback \<rparr>))))"

definition SSLIOStream_connect :: "callback option \<Rightarrow> iostream \<Rightarrow> unit result \<times> iostream" where
  "SSLIOStream_connect callback s =
     IOStream_connect None (s\<lparr> ssl_connect_callback := callback \<rparr>)"

definition connect :: "callback option \<Rightarrow> iostream \<Rightarrow> unit result \<times> iostream" where
  "connect callback s =
     (if is_ssl s then SSLIOStream_connect callback s else IOStream_connect callback s)"

section \<open>The size invariant and example streams\<close>

text \<open>
  Invariant 3 of the data model: the size counter of the read buffer is the sum of
  its chunk lengths.
\<close>

definition size_ok :: "iostream \<Rightarrow> bool" where
  "size_ok s = (read_buffer_size s = int (length (concat (read_buffer s))))"

text \<open>Concrete streams on which the theorems below are run.\<close>

definition example_net :: "recv_result list \<Rightarrow> send_result list \<Rightarrow> net" where
  "example_net rs ss =
     \<lparr> connect_result = Connect_ok, so_error = 0, recvs = rs, sends = ss,
       handshakes = [], send_calls = [] \<rparr>"

definition closed_stream_with_tail :: iostream where
  "closed_stream_with_tail =
     (IOStream_init Plain_socket (example_net [] []) 104857600 4096)
       \<lparr> socket := None, read_buffer := [''tail''], read_buffer_size := 4 \<rparr>"

definition small_stream :: iostream where
  "small_stream = IOStream_init Plain_socket (example_net [Recv ''0123456789''] []) 8 4096"

definition ssl_server_stream :: iostream where
  "ssl_server_stream =
     SSLIOStream_init SSL_socket
       ((example_net [] [])\<lparr> handshakes := [Hs_want_read] \<rparr>) 104857600 4096"

text \<open>
  The socket's answer to the next \<open>send\<close> (an exhausted script answers
  would-block), and the buffer that the next round of \<open>_handle_write\<close> passes to
  \<open>send\<close>.
\<close>

definition next_send :: "iostream \<Rightarrow> send_result" where
  "next_send s = (case sends (net s) of [] \<Rightarrow> Send_would_block | r # _ \<Rightarrow> r)"

definition submitted :: "iostream \<Rightarrow> bytes" where
  "submitted s =
     (if write_buffer_frozen s then hd (write_buffer s)
      else hd (merge_prefix (write_buffer s) (128 * 1024)))"

definition writing_stream :: "send_result list \<Rightarrow> bool \<Rightarrow> iostream" where
  "writing_stream ss frozen =
     (IOStream_init Plain_socket (example_net [] ss) 104857600 4096)
       \<lparr> write_buffer := [''hello'', ''world''], write_buffer_frozen := frozen \<rparr>"

definition ssl_client_stream :: iostream where
  "ssl_client_stream =
     SSLIOStream_init Plain_socket
       ((example_net [] [])\<lparr> handshakes := [Hs_want_write, Hs_want_read, Hs_done] \<rparr>)
       104857600 4096"

definition write_pending_stream :: iostream where
  "write_pending_stream =
     snd (IOStream_write ''x'' None
            (IOStream_init Plain_socket (example_net [] []) 104857600 4096))"

text \<open>
  \<open>d\<close> occurs in \<open>xs\<close> at offset \<open>p\<close>.
\<close>

definition occurs_at :: "bytes \<Rightarrow> bytes \<Rightarrow> nat \<Rightarrow> bool" where
  "occurs_at d xs p = (p \<le> length xs \<and> prefix d (drop p xs))"

definition delimited_stream :: iostream where
  "delimited_stream =
     (IOStream_init Plain_socket (example_net [] []) 104857600 4096)
       \<lparr> read_buffer := [''foo-'', ''-bar''], read_buffer_size := 8,
         read_delimiter := Some ''--'', read_callback := Some 1 \<rparr>"

section \<open>Operations on a stream, one after the other\<close>

text \<open>
  The \<open>wrapper\<close> closure of \<open>_run_callback\<close>, as the event loop runs it:
  it decrements \<open>_pending_callbacks\<close>, calls the user callback, and then either
  \<open>_maybe_add_error_listener\<close> (the callback returned) or \<open>close\<close> (it raised).
  The user callback may call any operation of the stream in between, so the wrapper is
  split into its beginning and its two endings. \<open>loop_run_next\<close> is the event loop
  starting the next scheduled entry: a wrapper, or the bound \<open>close\<close> scheduled by
  \<open>_handle_events\<close>.
\<close>

definition wrapper_begin :: "iostream \<Rightarrow> iostream" where
  "wrapper_begin s = s\<lparr> pending_callbacks := pending_callbacks s - 1 \<rparr>"

definition wrapper_returns :: "iostream \<Rightarrow> iostream" where
  "wrapper_returns s = maybe_add_error_listener s"

definition wrapper_raises :: "iostream \<Rightarrow> iostream" where
  "wrapper_raises s = close s"

definition loop_run_next :: "iostream \<Rightarrow> iostream" where
  "loop_run_next s =
     (if started (io_loop s) < length (callbacks (io_loop s)) then
        let entry = callbacks (io_loop s) ! started (io_loop s);
            s1 = s\<lparr> io_loop := (io_loop s)\<lparr> started := started (io_loop s) + 1 \<rparr> \<rparr>
        in (case entry of
              Bound_close \<Rightarrow> close s1
            | Wrapper _ _ \<Rightarrow> wrapper_begin s1)
      else s)"

text \<open>
  What can happen to a stream: a call of a public operation, a readiness event, or the
  event loop running a scheduled callback. \<open>step\<close> gives the state after the call,
  whether it returned or raised (\<open>None\<close>: the call does not return); \<open>run\<close>
  performs a list of them.
\<close>

datatype op =
    Op_connect "callback option"
  | Op_read_until_regex regex callback
  | Op_read_until bytes callback
  | Op_read_bytes int callback "callback option"
  | Op_read_until_close callback "callback option"
  | Op_write bytes "callback option"
  | Op_set_close_callback "callback option"
  | Op_close
  | Op_handle_events "io_flag set"
  | Loop_run_next
  | Callback_returns
  | Callback_raises

fun step :: "op \<Rightarrow> iostream \<Rightarrow> iostream option" where
  "step (Op_connect cb) s = Some (snd (connect cb s))"
| "step (Op_read_until_regex r cb) s = map_option snd (read_until_regex r cb s)"
| "step (Op_read_until d cb) s = map_option snd (read_until d cb s)"
| "step (Op_read_bytes n cb scb) s = map_option snd (read_bytes n cb scb s)"
| "step (Op_read_until_close cb scb) s = Some (snd (read_until_close cb scb s))"
| "step (Op_write d cb) s = Some (snd (IOStream_write d cb s))"
| "step (Op_set_close_callback cb) s = Some (set_close_callback cb s)"
| "step Op_close s = Some (close s)"
| "step (Op_handle_events events) s = map_option snd (handle_events events s)"
| "step Loop_run_next s = Some (loop_run_next s)"
| "step Callback_returns s = Some (wrapper_returns s)"
| "step Callback_raises s = Some (wrapper_raises s)"

fun run :: "op list \<Rightarrow> iostream \<Rightarrow> iostream option" where
  "run [] s = Some s"
| "run (op # ops) s = (case step op s of None \<Rightarrow> None | Some s' \<Rightarrow> run ops s')"

text \<open>
  The callbacks an operation is given, and how often a callback has been handed to the
  event loop so far.
\<close>

fun op_callbacks :: "op \<Rightarrow> callback set" where
  "op_callbacks (Op_connect cb) = set_option cb"
| "op_callbacks (Op_read_until_regex r cb) = {cb}"
| "op_callbacks (Op_read_until d cb) = {cb}"
| "op_callbacks (Op_read_bytes n cb scb) = {cb} \<union> set_option scb"
| "op_callbacks (Op_read_until_close cb scb) = {cb} \<union> set_option scb"
| "op_callbacks (Op_write d cb) = set_option cb"
| "op_callbacks (Op_set_close_callback cb) = set_option cb"
| "op_callbacks _ = {}"

fun is_run_of :: "callback \<Rightarrow> scheduled \<Rightarrow> bool" where
  "is_run_of c (Wrapper cb args) = (cb = Some c)"
| "is_run_of c Bound_close = False"

definition fired :: "callback \<Rightarrow> iostream \<Rightarrow> nat" where
  "fired c s = length (filter (is_run_of c) (callbacks (io_loop s)))"

definition holds_elsewhere :: "callback \<Rightarrow> iostream \<Rightarrow> bool" where
  "holds_elsewhere c s =
     (read_callback s = Some c \<or> streaming_callback s = Some c \<or> write_callback s = Some c
      \<or> connect_callback s = Some c \<or> ssl_connect_callback s = Some c)"

definition residue_stream :: iostream where
  "residue_stream =
     (IOStream_init Plain_socket (example_net [] []) 104857600 4096)
       \<lparr> read_buffer := [''b--c''], read_buffer_size := 4 \<rparr>"

text \<open>
  The part of a script of answers that has been used up, given what is left of it.
\<close>

definition consumed :: "'a list \<Rightarrow> 'a list \<Rightarrow> 'a list" where
  "consumed script rest = take (length script - length rest) script"

text \<open>
  The callback \<open>c\<close> is held in an attribute other than \<open>_ssl_connect_callback\<close>.
\<close>

definition holds_outside_stash :: "callback \<Rightarrow> iostream \<Rightarrow> bool" where
  "holds_outside_stash c s =
     (read_callback s = Some c \<or> streaming_callback s = Some c \<or> write_callback s = Some c
      \<or> connect_callback s = Some c \<or> close_callback s = Some c)"

text \<open>
  What every method keeps between a state \<open>s\<close> and a later state \<open>s'\<close>: handshake
  answers are only used up from the front of the script; \<open>_ssl_accepting\<close> is never set
  again, and it is cleared only after the answer \<open>Hs_done\<close> has been used up; a callback
  held in no attribute other than the stash stays out of them and is not scheduled while
  \<open>_ssl_accepting\<close> holds.
\<close>

definition calm :: "callback \<Rightarrow> iostream \<Rightarrow> iostream \<Rightarrow> bool" where
  "calm c s s' =
     (consumed (handshakes (net s)) (handshakes (net s')) @ handshakes (net s')
        = handshakes (net s)
      \<and> (ssl_accepting s' \<longrightarrow> ssl_accepting s)
      \<and> (ssl_accepting s \<longrightarrow> \<not> ssl_accepting s' \<longrightarrow>
           Hs_done \<in> set (consumed (handshakes (net s)) (handshakes (net s'))))
      \<and> (\<not> holds_outside_stash c s \<longrightarrow>
           \<not> holds_outside_stash c s'
           \<and> (ssl_accepting s' \<longrightarrow> fired c s' = fired c s)))"

section \<open>Properties of the buffer utilities\<close>

lemma merge_prefix_loop_concat:
  "merge_prefix_loop deque remaining pfx = (d, p) \<Longrightarrow>
     concat p @ concat d = concat pfx @ concat deque"
proof (induction deque remaining pfx arbitrary: d p rule: merge_prefix_loop.induct)
  case (1 deque remaining pfx)
  show ?case
  proof (cases deque)
    case Nil
    with "1.prems" show ?thesis by (simp add: merge_prefix_loop.simps)
  next
    case (Cons chunk rest)
    show ?thesis
    proof (cases "remaining > 0")
      case False
      with Cons "1.prems" show ?thesis by (simp add: merge_prefix_loop.simps)
    next
      case pos: True
      show ?thesis
      proof (cases "int (length chunk) > remaining")
        case True
        with pos Cons "1.prems"
        have "merge_prefix_loop (drop (nat remaining) chunk # rest)
                (remaining - int (length (take (nat remaining) chunk)))
                (pfx @ [take (nat remaining) chunk]) = (d, p)"
          by (simp add: merge_prefix_loop.simps [of "chunk # rest"])
        from "1.IH"(1) [OF Cons pos True this] Cons show ?thesis by simp
      next
        case False
        with pos Cons "1.prems"
        have "merge_prefix_loop rest (remaining - int (length chunk)) (pfx @ [chunk]) = (d, p)"
          by (simp add: merge_prefix_loop.simps [of "chunk # rest"])
        from "1.IH"(2) [OF Cons pos False this] Cons show ?thesis by simp
      qed
    qed
  qed
qed

lemma merge_prefix_loop_length:
  "merge_prefix_loop deque remaining pfx = (d, p) \<Longrightarrow> 0 \<le> remaining \<Longrightarrow>
     length (concat p) = length (concat pfx) + min (nat remaining) (length (concat deque))"
proof (induction deque remaining pfx arbitrary: d p rule: merge_prefix_loop.induct)
  case (1 deque remaining pfx)
  show ?case
  proof (cases deque)
    case Nil
    with "1.prems" show ?thesis by (simp add: merge_prefix_loop.simps)
  next
    case (Cons chunk rest)
    show ?thesis
    proof (cases "remaining > 0")
      case False
      with Cons "1.prems" show ?thesis by (simp add: merge_prefix_loop.simps)
    next
      case pos: True
      show ?thesis
      proof (cases "int (length chunk) > remaining")
        case True
        with pos Cons "1.prems"
        have "merge_prefix_loop (drop (nat remaining) chunk # rest)
                (remaining - int (length (take (nat remaining) chunk)))
                (pfx @ [take (nat remaining) chunk]) = (d, p)"
          by (simp add: merge_prefix_loop.simps [of "chunk # rest"])
        from "1.IH"(1) [OF Cons pos True this] Cons True pos show ?thesis
          by (simp add: min_def)
      next
        case False
        with pos Cons "1.prems"
        have "merge_prefix_loop rest (remaining - int (length chunk)) (pfx @ [chunk]) = (d, p)"
          by (simp add: merge_prefix_loop.simps [of "chunk # rest"])
        from "1.IH"(2) [OF Cons pos False this] Cons False pos show ?thesis
          by (simp add: min_def nat_diff_distrib split: if_splits)
      qed
    qed
  qed
qed

lemma merge_prefix_loop_prefix_nonempty:
  "merge_prefix_loop deque remaining pfx = (d, p) \<Longrightarrow>
     pfx \<noteq> [] \<or> (deque \<noteq> [] \<and> 0 < remaining) \<Longrightarrow> p \<noteq> []"
proof (induction deque remaining pfx arbitrary: d p rule: merge_prefix_loop.induct)
  case (1 deque remaining pfx)
  show ?case
  proof (cases deque)
    case Nil
    with "1.prems" show ?thesis by (simp add: merge_prefix_loop.simps)
  next
    case (Cons chunk rest)
    show ?thesis
    proof (cases "remaining > 0")
      case False
      with Cons "1.prems" show ?thesis by (simp add: merge_prefix_loop.simps)
    next
      case pos: True
      show ?thesis
      proof (cases "int (length chunk) > remaining")
        case True
        with pos Cons "1.prems"
        have "merge_prefix_loop (drop (nat remaining) chunk # rest)
                (remaining - int (length (take (nat remaining) chunk)))
                (pfx @ [take (nat remaining) chunk]) = (d, p)"
          by (simp add: merge_prefix_loop.simps [of "chunk # rest"])
        from "1.IH"(1) [OF Cons pos True this] show ?thesis by simp
      next
        case False
        with pos Cons "1.prems"
        have "merge_prefix_loop rest (remaining - int (length chunk)) (pfx @ [chunk]) = (d, p)"
          by (simp add: merge_prefix_loop.simps [of "chunk # rest"])
        from "1.IH"(2) [OF Cons pos False this] show ?thesis by simp
      qed
    qed
  qed
qed

lemma merge_prefix_nonempty: "merge_prefix deque sz \<noteq> []"
  by (auto simp: merge_prefix_def Let_def split: prod.splits)

lemma merge_prefix_concat: "concat (merge_prefix deque sz) = concat deque"
  by (auto simp: merge_prefix_def Let_def split: prod.splits
           dest: merge_prefix_loop_concat)

lemma merge_prefix_empty: "merge_prefix [] sz = [[]]"
  by (simp add: merge_prefix_def merge_prefix_loop.simps)

lemma merge_prefix_hd_length:
  assumes "0 < sz"
  shows "length (hd (merge_prefix deque sz)) = min (nat sz) (length (concat deque))"
proof (cases "length deque = 1 \<and> int (length (hd deque)) \<le> sz")
  case True
  then obtain c where "deque = [c]" by (cases deque) auto
  with True show ?thesis by (auto simp: merge_prefix_def min_def)
next
  case False
  obtain d p where loop: "merge_prefix_loop deque sz [] = (d, p)"
    by (cases "merge_prefix_loop deque sz []")
  from merge_prefix_loop_length [OF loop] assms
  have len: "length (concat p) = min (nat sz) (length (concat deque))" by simp
  show ?thesis
  proof (cases "deque = []")
    case True
    then show ?thesis by (simp add: merge_prefix_empty)
  next
    case ne: False
    with merge_prefix_loop_prefix_nonempty [OF loop] assms have "p \<noteq> []" by simp
    with False loop len show ?thesis by (auto simp: merge_prefix_def)
  qed
qed

lemma merge_prefix_hd:
  assumes "0 < sz"
  shows "hd (merge_prefix deque sz) = take (nat sz) (concat deque)"
proof -
  let ?m = "merge_prefix deque sz"
  have "concat ?m = hd ?m @ concat (tl ?m)"
    using merge_prefix_nonempty [of deque sz] by (cases ?m) auto
  then have split: "concat deque = hd ?m @ concat (tl ?m)"
    by (simp add: merge_prefix_concat)
  have "length (hd ?m) = min (nat sz) (length (concat deque))"
    by (rule merge_prefix_hd_length [OF assms])
  then have "take (nat sz) (concat deque) = take (length (hd ?m)) (concat deque)"
    by (simp add: min_def split: if_splits)
  also have "\<dots> = hd ?m"
    by (subst split) simp
  finally show ?thesis by simp
qed

lemma merge_prefix_tl:
  assumes "0 < sz"
  shows "concat (tl (merge_prefix deque sz)) = drop (nat sz) (concat deque)"
proof -
  let ?m = "merge_prefix deque sz"
  have "concat ?m = hd ?m @ concat (tl ?m)"
    using merge_prefix_nonempty [of deque sz] by (cases ?m) auto
  then have "concat deque = take (nat sz) (concat deque) @ concat (tl ?m)"
    by (simp add: merge_prefix_concat merge_prefix_hd [OF assms])
  then have "take (nat sz) (concat deque) @ drop (nat sz) (concat deque)
               = take (nat sz) (concat deque) @ concat (tl ?m)"
    by simp
  then show ?thesis by (simp only: same_append_eq)
qed


section \<open>Which attributes each helper leaves alone\<close>

lemma run_callback_fields [simp]:
  "socket (run_callback cb args s) = socket s"
  "net (run_callback cb args s) = net s"
  "max_buffer_size (run_callback cb args s) = max_buffer_size s"
  "read_chunk_size (run_callback cb args s) = read_chunk_size s"
  "read_buffer (run_callback cb args s) = read_buffer s"
  "write_buffer (run_callback cb args s) = write_buffer s"
  "read_buffer_size (run_callback cb args s) = read_buffer_size s"
  "write_buffer_frozen (run_callback cb args s) = write_buffer_frozen s"
  "read_delimiter (run_callback cb args s) = read_delimiter s"
  "read_regex (run_callback cb args s) = read_regex s"
  "read_bytes_fld (run_callback cb args s) = read_bytes_fld s"
  "read_until_close_fld (run_callback cb args s) = read_until_close_fld s"
  "read_callback (run_callback cb args s) = read_callback s"
  "streaming_callback (run_callback cb args s) = streaming_callback s"
  "write_callback (run_callback cb args s) = write_callback s"
  "close_callback (run_callback cb args s) = close_callback s"
  "connect_callback (run_callback cb args s) = connect_callback s"
  "connecting (run_callback cb args s) = connecting s"
  "io_state (run_callback cb args s) = io_state s"
  "is_ssl (run_callback cb args s) = is_ssl s"
  "ssl_accepting (run_callback cb args s) = ssl_accepting s"
  "handshake_reading (run_callback cb args s) = handshake_reading s"
  "handshake_writing (run_callback cb args s) = handshake_writing s"
  "ssl_connect_callback (run_callback cb args s) = ssl_connect_callback s"
  by (simp_all add: run_callback_def)

lemma run_callback_loop [simp]:
  "callbacks (io_loop (run_callback cb args s)) = callbacks (io_loop s) @ [Wrapper cb args]"
  "handler (io_loop (run_callback cb args s)) = handler (io_loop s)"
  "started (io_loop (run_callback cb args s)) = started (io_loop s)"
  "pending_callbacks (run_callback cb args s) = pending_callbacks s + 1"
  by (simp_all add: run_callback_def)

lemma consume_fields [simp]:
  "socket (snd (consume loc s)) = socket s"
  "net (snd (consume loc s)) = net s"
  "io_loop (snd (consume loc s)) = io_loop s"
  "max_buffer_size (snd (consume loc s)) = max_buffer_size s"
  "read_chunk_size (snd (consume loc s)) = read_chunk_size s"
  "write_buffer (snd (consume loc s)) = write_buffer s"
  "write_buffer_frozen (snd (consume loc s)) = write_buffer_frozen s"
  "read_delimiter (snd (consume loc s)) = read_delimiter s"
  "read_regex (snd (consume loc s)) = read_regex s"
  "read_bytes_fld (snd (consume loc s)) = read_bytes_fld s"
  "read_until_close_fld (snd (consume loc s)) = read_until_close_fld s"
  "read_callback (snd (consume loc s)) = read_callback s"
  "streaming_callback (snd (consume loc s)) = streaming_callback s"
  "write_callback (snd (consume loc s)) = write_callback s"
  "close_callback (snd (consume loc s)) = close_callback s"
  "connect_callback (snd (consume loc s)) = connect_callback s"
  "connecting (snd (consume loc s)) = connecting s"
  "io_state (snd (consume loc s)) = io_state s"
  "pending_callbacks (snd (consume loc s)) = pending_callbacks s"
  "is_ssl (snd (consume loc s)) = is_ssl s"
  "ssl_accepting (snd (consume loc s)) = ssl_accepting s"
  "handshake_reading (snd (consume loc s)) = handshake_reading s"
  "handshake_writing (snd (consume loc s)) = handshake_writing s"
  "ssl_connect_callback (snd (consume loc s)) = ssl_connect_callback s"
  by (simp_all add: consume_def Let_def)

lemma consume_size [simp]:
  "read_buffer_size (snd (consume loc s)) = read_buffer_size s - loc"
  by (simp add: consume_def Let_def)

lemma consume_fst:
  "0 \<le> loc \<Longrightarrow> fst (consume loc s) = take (nat loc) (concat (read_buffer s))"
  by (simp add: consume_def Let_def merge_prefix_hd)

lemma consume_concat:
  "0 \<le> loc \<Longrightarrow>
     concat (read_buffer (snd (consume loc s))) = drop (nat loc) (concat (read_buffer s))"
  by (simp add: consume_def Let_def merge_prefix_tl)

lemma maybe_run_close_callback_fields [simp]:
  "socket (maybe_run_close_callback s) = socket s"
  "net (maybe_run_close_callback s) = net s"
  "max_buffer_size (maybe_run_close_callback s) = max_buffer_size s"
  "read_chunk_size (maybe_run_close_callback s) = read_chunk_size s"
  "read_buffer (maybe_run_close_callback s) = read_buffer s"
  "write_buffer (maybe_run_close_callback s) = write_buffer s"
  "read_buffer_size (maybe_run_close_callback s) = read_buffer_size s"
  "write_buffer_frozen (maybe_run_close_callback s) = write_buffer_frozen s"
  "read_delimiter (maybe_run_close_callback s) = read_delimiter s"
  "read_regex (maybe_run_close_callback s) = read_regex s"
  "read_bytes_fld (maybe_run_close_callback s) = read_bytes_fld s"
  "read_until_close_fld (maybe_run_close_callback s) = read_until_close_fld s"
  "read_callback (maybe_run_close_callback s) = read_callback s"
  "streaming_callback (maybe_run_close_callback s) = streaming_callback s"
  "write_callback (maybe_run_close_callback s) = write_callback s"
  "connect_callback (maybe_run_close_callback s) = connect_callback s"
  "connecting (maybe_run_close_callback s) = connecting s"
  "io_state (maybe_run_close_callback s) = io_state s"
  "is_ssl (maybe_run_close_callback s) = is_ssl s"
  "ssl_accepting (maybe_run_close_callback s) = ssl_accepting s"
  "handshake_reading (maybe_run_close_callback s) = handshake_reading s"
  "handshake_writing (maybe_run_close_callback s) = handshake_writing s"
  "ssl_connect_callback (maybe_run_close_callback s) = ssl_connect_callback s"
  by (simp_all add: maybe_run_close_callback_def Let_def)

lemma maybe_run_close_callback_loop [simp]:
  "handler (io_loop (maybe_run_close_callback s)) = handler (io_loop s)"
  "started (io_loop (maybe_run_close_callback s)) = started (io_loop s)"
  by (simp_all add: maybe_run_close_callback_def Let_def)

lemma close_fields [simp]:
  "net (close s) = net s"
  "max_buffer_size (close s) = max_buffer_size s"
  "read_chunk_size (close s) = read_chunk_size s"
  "write_buffer (close s) = write_buffer s"
  "write_buffer_frozen (close s) = write_buffer_frozen s"
  "read_delimiter (close s) = read_delimiter s"
  "read_regex (close s) = read_regex s"
  "read_bytes_fld (close s) = read_bytes_fld s"
  "streaming_callback (close s) = streaming_callback s"
  "write_callback (close s) = write_callback s"
  "connect_callback (close s) = connect_callback s"
  "connecting (close s) = connecting s"
  "is_ssl (close s) = is_ssl s"
  "ssl_accepting (close s) = ssl_accepting s"
  "handshake_reading (close s) = handshake_reading s"
  "handshake_writing (close s) = handshake_writing s"
  "ssl_connect_callback (close s) = ssl_connect_callback s"
  by (simp_all add: close_def Let_def split_beta)

lemma close_closed [simp]:
  "socket (close s) = None"
  "io_state (close s) = (if socket s = None then io_state s else None)"
  "started (io_loop (close s)) = started (io_loop s)"
  by (simp_all add: close_def Let_def split_beta)

lemma add_io_state_fields [simp]:
  "socket (add_io_state state s) = socket s"
  "net (add_io_state state s) = net s"
  "max_buffer_size (add_io_state state s) = max_buffer_size s"
  "read_chunk_size (add_io_state state s) = read_chunk_size s"
  "read_buffer (add_io_state state s) = read_buffer s"
  "write_buffer (add_io_state state s) = write_buffer s"
  "read_buffer_size (add_io_state state s) = read_buffer_size s"
  "write_buffer_frozen (add_io_state state s) = write_buffer_frozen s"
  "read_delimiter (add_io_state state s) = read_delimiter s"
  "read_regex (add_io_state state s) = read_regex s"
  "read_bytes_fld (add_io_state state s) = read_bytes_fld s"
  "read_until_close_fld (add_io_state state s) = read_until_close_fld s"
  "read_callback (add_io_state state s) = read_callback s"
  "streaming_callback (add_io_state state s) = streaming_callback s"
  "write_callback (add_io_state state s) = write_callback s"
  "close_callback (add_io_state state s) = close_callback s"
  "connect_callback (add_io_state state s) = connect_callback s"
  "connecting (add_io_state state s) = connecting s"
  "pending_callbacks (add_io_state state s) = pending_callbacks s"
  "is_ssl (add_io_state state s) = is_ssl s"
  "ssl_accepting (add_io_state state s) = ssl_accepting s"
  "handshake_reading (add_io_state state s) = handshake_reading s"
  "handshake_writing (add_io_state state s) = handshake_writing s"
  "ssl_connect_callback (add_io_state state s) = ssl_connect_callback s"
  by (simp_all add: add_io_state_def split: option.splits)

lemma add_io_state_loop [simp]:
  "callbacks (io_loop (add_io_state state s)) = callbacks (io_loop s)"
  "started (io_loop (add_io_state state s)) = started (io_loop s)"
  by (simp_all add: add_io_state_def split: option.splits)

lemma maybe_add_error_listener_fields [simp]:
  "socket (maybe_add_error_listener s) = socket s"
  "net (maybe_add_error_listener s) = net s"
  "max_buffer_size (maybe_add_error_listener s) = max_buffer_size s"
  "read_chunk_size (maybe_add_error_listener s) = read_chunk_size s"
  "read_buffer (maybe_add_error_listener s) = read_buffer s"
  "write_buffer (maybe_add_error_listener s) = write_buffer s"
  "read_buffer_size (maybe_add_error_listener s) = read_buffer_size s"
  "write_buffer_frozen (maybe_add_error_listener s) = write_buffer_frozen s"
  "read_delimiter (maybe_add_error_listener s) = read_delimiter s"
  "read_regex (maybe_add_error_listener s) = read_regex s"
  "read_bytes_fld (maybe_add_error_listener s) = read_bytes_fld s"
  "read_until_close_fld (maybe_add_error_listener s) = read_until_close_fld s"
  "read_callback (maybe_add_error_listener s) = read_callback s"
  "streaming_callback (maybe_add_error_listener s) = streaming_callback s"
  "write_callback (maybe_add_error_listener s) = write_callback s"
  "connect_callback (maybe_add_error_listener s) = connect_callback s"
  "connecting (maybe_add_error_listener s) = connecting s"
  "is_ssl (maybe_add_error_listener s) = is_ssl s"
  "ssl_accepting (maybe_add_error_listener s) = ssl_accepting s"
  "handshake_reading (maybe_add_error_listener s) = handshake_reading s"
  "handshake_writing (maybe_add_error_listener s) = handshake_writing s"
  "ssl_connect_callback (maybe_add_error_listener s) = ssl_connect_callback s"
  by (simp_all add: maybe_add_error_listener_def)

section \<open>Claims about the buffer utilities\<close>

lemma merge_prefix_nonpositive:
  "k \<le> 0 \<Longrightarrow> D \<noteq> [] \<Longrightarrow> merge_prefix D k = D"
  by (cases D) (auto simp: merge_prefix_def merge_prefix_loop.simps)

text \<open>
  Claim C1, as amended. For every deque \<open>D\<close> of byte chunks and every size
  \<open>k\<close>, after \<open>_merge_prefix(D, k)\<close> the deque is not empty and the
  concatenation of its chunks is the concatenation before the call. For \<open>k \<ge> 1\<close>
  the first chunk has length \<open>min(k, total length of D)\<close>, it is the first
  \<open>k\<close> bytes of the original concatenation, and the chunks after it concatenate to
  the remaining suffix. For \<open>k \<le> 0\<close> a non-empty deque is left exactly as it
  is. When \<open>D\<close> was empty the result is the deque holding one empty chunk.
\<close>

theorem merge_prefix_correct:
  "merge_prefix D k \<noteq> []
    \<and> concat (merge_prefix D k) = concat D
    \<and> (0 < k \<longrightarrow>
          int (length (hd (merge_prefix D k))) = min k (int (length (concat D)))
          \<and> hd (merge_prefix D k) = take (nat k) (concat D)
          \<and> concat (tl (merge_prefix D k)) = drop (nat k) (concat D))
    \<and> (k \<le> 0 \<and> D \<noteq> [] \<longrightarrow> merge_prefix D k = D)
    \<and> (D = [] \<longrightarrow> merge_prefix D k = [[]])"
proof -
  have "int (length (hd (merge_prefix D k))) = min k (int (length (concat D)))" if "0 < k"
    using merge_prefix_hd_length [OF that, of D] that by (auto simp: min_def)
  then show ?thesis
    by (simp add: merge_prefix_nonempty merge_prefix_concat merge_prefix_hd
        merge_prefix_tl merge_prefix_empty merge_prefix_nonpositive)
qed

text \<open>
  The doctest of \<open>_merge_prefix\<close>, first step, through the theorem; and a
  negative size, which leaves the deque alone.
\<close>

theorem merge_prefix_correct_witness:
  "(0::int) < 5
    \<and> merge_prefix [''abc'', ''de'', ''fghi'', ''j''] 5 = [''abcde'', ''fghi'', ''j'']
    \<and> hd (merge_prefix [''abc'', ''de'', ''fghi'', ''j''] 5) = ''abcde''
    \<and> concat (tl (merge_prefix [''abc'', ''de'', ''fghi'', ''j''] 5)) = ''fghij''
    \<and> (- 1 :: int) \<le> 0 \<and> [''abc'', ''de''] \<noteq> []
    \<and> merge_prefix [''abc'', ''de''] (- 1) = [''abc'', ''de'']"
proof -
  have run: "merge_prefix [''abc'', ''de'', ''fghi'', ''j''] 5 = [''abcde'', ''fghi'', ''j'']"
    by (simp add: merge_prefix_def merge_prefix_loop.simps)
  from merge_prefix_correct [of "[''abc'', ''de'', ''fghi'', ''j'']" 5]
    merge_prefix_correct [of "[''abc'', ''de'']" "- 1"] run
  show ?thesis by simp
qed

text \<open>
  Claim C1 as stated, for every size: it fails at size 0, where a non-empty deque is
  returned unchanged and its first chunk keeps its length.
\<close>

theorem merge_prefix_size_zero_counterexample:
  "merge_prefix [''abc'', ''de''] 0 = [''abc'', ''de'']
    \<and> int (length (hd (merge_prefix [''abc'', ''de''] 0)))
        \<noteq> min 0 (int (length (concat [''abc'', ''de''])))"
  by (simp add: merge_prefix_def merge_prefix_loop.simps)


section \<open>Claims about the read engine\<close>

lemma read_from_socket_chunk:
  "read_from_socket s = (Return (Some chunk), s1) \<Longrightarrow>
     s1 = s\<lparr> net := (net s)\<lparr> recvs := tl (recvs (net s)) \<rparr> \<rparr> \<and> chunk \<noteq> []
     \<and> recvs (net s) \<noteq> [] \<and> hd (recvs (net s)) = Recv chunk \<and> socket s \<noteq> None"
  by (auto simp: read_from_socket_def SSLIOStream_read_from_socket_def
        IOStream_read_from_socket_def Let_def
      split: if_splits list.splits recv_result.splits)

lemma read_from_socket_raise:
  "read_from_socket s = (Raise e, s1) \<Longrightarrow> e = Socket_error \<or> e = AttributeError"
  by (auto simp: read_from_socket_def SSLIOStream_read_from_socket_def
        IOStream_read_from_socket_def Let_def
      split: if_splits list.splits recv_result.splits)

lemma read_to_buffer_overflow_iff:
  "(fst (read_to_buffer s) = Raise (IOError ''Reached maximum read buffer size'')) =
     (\<exists>chunk s1. read_from_socket s = (Return (Some chunk), s1)
        \<and> max_buffer_size s \<le> read_buffer_size s + int (length chunk))"
proof (cases "read_from_socket s")
  case (Pair r s1)
  show ?thesis
  proof (cases r)
    case (Raise e)
    with Pair read_from_socket_raise [of s e s1] show ?thesis
      by (auto simp: read_to_buffer_def)
  next
    case (Return v)
    show ?thesis
    proof (cases v)
      case None
      with Pair Return show ?thesis by (simp add: read_to_buffer_def)
    next
      case (Some chunk)
      with Pair Return have rd: "read_from_socket s = (Return (Some chunk), s1)" by simp
      from read_from_socket_chunk [OF rd]
      have "read_buffer_size s1 = read_buffer_size s" "max_buffer_size s1 = max_buffer_size s"
        by simp_all
      with rd show ?thesis by (simp add: read_to_buffer_def Let_def)
    qed
  qed
qed

lemma read_to_buffer_overflow_closes:
  "fst (read_to_buffer s) = Raise (IOError ''Reached maximum read buffer size'') \<Longrightarrow>
     closed (snd (read_to_buffer s))"
  by (auto simp: read_to_buffer_def closed_def Let_def
      split: prod.splits result.splits option.splits if_splits
      dest: read_from_socket_raise)

lemma read_to_buffer_below:
  assumes "read_from_socket s = (Return (Some chunk), s1)"
    and "read_buffer_size s + int (length chunk) < max_buffer_size s"
  shows "read_to_buffer s =
           (Return (int (length chunk)),
            s1\<lparr> read_buffer := read_buffer s @ [chunk],
                read_buffer_size := read_buffer_size s + int (length chunk) \<rparr>)"
proof -
  from read_from_socket_chunk [OF assms(1)]
  have "read_buffer_size s1 = read_buffer_size s" "max_buffer_size s1 = max_buffer_size s"
    "read_buffer s1 = read_buffer s"
    by simp_all
  with assms show ?thesis by (simp add: read_to_buffer_def Let_def)
qed

text \<open>
  Claim C6. \<open>_read_to_buffer\<close> raises the buffer-overflow error exactly when the
  socket read returned a chunk and appending it makes the size counter reach or exceed
  \<open>max_buffer_size\<close>; the stream is closed when it does. A chunk that keeps the
  counter below \<open>max_buffer_size\<close> is appended, the counter grows by its length and
  the length is returned; no other outcome of the socket read raises this error.
\<close>

theorem read_to_buffer_overflow:
  "(fst (read_to_buffer s) = Raise (IOError ''Reached maximum read buffer size'')) =
     (\<exists>chunk s1. read_from_socket s = (Return (Some chunk), s1)
        \<and> max_buffer_size s \<le> read_buffer_size s + int (length chunk))
   \<and> (fst (read_to_buffer s) = Raise (IOError ''Reached maximum read buffer size'')
        \<longrightarrow> closed (snd (read_to_buffer s)))
   \<and> (\<forall>chunk s1. read_from_socket s = (Return (Some chunk), s1)
          \<and> read_buffer_size s + int (length chunk) < max_buffer_size s
        \<longrightarrow> read_to_buffer s =
              (Return (int (length chunk)),
               s1\<lparr> read_buffer := read_buffer s @ [chunk],
                   read_buffer_size := read_buffer_size s + int (length chunk) \<rparr>))"
  using read_to_buffer_overflow_iff [of s] read_to_buffer_overflow_closes [of s]
    read_to_buffer_below [of s]
  by blast

text \<open>
  With \<open>max_buffer_size = 8\<close>, a socket that produces 10 bytes in one read: the
  stream is closed and the error raised.
\<close>

theorem read_to_buffer_overflow_witness:
  "fst (read_from_socket small_stream) = Return (Some ''0123456789'')
    \<and> max_buffer_size small_stream
        \<le> read_buffer_size small_stream + int (length ''0123456789'')
    \<and> fst (read_to_buffer small_stream) = Raise (IOError ''Reached maximum read buffer size'')
    \<and> closed (snd (read_to_buffer small_stream))"
proof -
  have rd: "read_from_socket small_stream =
      (Return (Some ''0123456789''),
       small_stream\<lparr> net := (net small_stream)\<lparr> recvs := [] \<rparr> \<rparr>)"
    by (simp add: small_stream_def IOStream_init_def example_net_def read_from_socket_def
        IOStream_read_from_socket_def)
  have sz: "max_buffer_size small_stream
      \<le> read_buffer_size small_stream + int (length ''0123456789'')"
    by (simp add: small_stream_def IOStream_init_def)
  from rd sz read_to_buffer_overflow [of small_stream] show ?thesis
    by (metis fst_conv)
qed

lemma consume_all_fst:
  "size_ok s \<Longrightarrow> fst (consume (read_buffer_size s) s) = concat (read_buffer s)"
  by (simp add: size_ok_def consume_fst)

lemma consume_all_concat:
  "size_ok s \<Longrightarrow> concat (read_buffer (snd (consume (read_buffer_size s) s))) = []"
  by (simp add: size_ok_def consume_concat)

text \<open>
  Claim C4, as amended. When \<open>read_until_close(cb, stream_cb)\<close> is called on a
  stream that is already closed, on which no read is pending (\<open>_read_callback\<close>
  is \<open>None\<close>; the call fails its assertion otherwise) and whose size counter is
  the number of buffered bytes, the whole read buffer is delivered once, as one
  concatenated payload: to the streaming callback when there is one, and the
  completion callback then receives the empty payload; to the completion callback
  otherwise. The buffer is left empty, the until-close mode is not stored, both
  callback slots are cleared and the registered interest is not touched.
\<close>

theorem read_until_close_on_closed_stream:
  assumes "closed s" and "read_callback s = None" and "size_ok s"
  shows "fst (read_until_close cb scb s) = Return ()
    \<and> callbacks (io_loop (snd (read_until_close cb scb s))) =
        callbacks (io_loop s) @
          (case scb of
             None \<Rightarrow> [Wrapper (Some cb) (Some (concat (read_buffer s)))]
           | Some sc \<Rightarrow> [Wrapper (Some sc) (Some (concat (read_buffer s))),
                        Wrapper (Some cb) (Some [])])
    \<and> concat (read_buffer (snd (read_until_close cb scb s))) = []
    \<and> read_buffer_size (snd (read_until_close cb scb s)) = 0
    \<and> read_until_close_fld (snd (read_until_close cb scb s)) = read_until_close_fld s
    \<and> read_callback (snd (read_until_close cb scb s)) = None
    \<and> streaming_callback (snd (read_until_close cb scb s)) = None
    \<and> io_state (snd (read_until_close cb scb s)) = io_state s
    \<and> handler (io_loop (snd (read_until_close cb scb s))) = handler (io_loop s)"
proof (cases scb)
  case None
  with assms show ?thesis
    by (simp add: read_until_close_def set_read_callback_def closed_def Let_def split_beta
        consume_fst consume_concat size_ok_def)
next
  case (Some sc)
  with assms show ?thesis
    by (simp add: read_until_close_def set_read_callback_def closed_def Let_def split_beta
        consume_fst consume_concat size_ok_def)
qed

text \<open>
  The buffer holds \<open>tail\<close> and the socket is gone: \<open>read_until_close(done)\<close>
  schedules \<open>done\<close> with \<open>tail\<close> and registers nothing.
\<close>

theorem read_until_close_on_closed_stream_witness:
  "closed closed_stream_with_tail
    \<and> read_callback closed_stream_with_tail = None
    \<and> size_ok closed_stream_with_tail
    \<and> callbacks (io_loop (snd (read_until_close 1 None closed_stream_with_tail))) =
        [Wrapper (Some 1) (Some ''tail'')]
    \<and> io_state (snd (read_until_close 1 None closed_stream_with_tail)) = None"
proof -
  have h: "closed closed_stream_with_tail" "read_callback closed_stream_with_tail = None"
    "size_ok closed_stream_with_tail"
    by (simp_all add: closed_stream_with_tail_def IOStream_init_def closed_def size_ok_def)
  from read_until_close_on_closed_stream [OF h, of 1 None] h show ?thesis
    by (simp add: closed_stream_with_tail_def IOStream_init_def)
qed

text \<open>
  Claim C4 as stated says that both callbacks receive the buffered bytes. With a
  streaming callback (2) the completion callback (1) receives the empty payload, as
  the docstring of \<open>read_until_close\<close> announces.
\<close>

theorem read_until_close_streaming_counterexample:
  "callbacks (io_loop (snd (read_until_close 1 (Some 2) closed_stream_with_tail))) =
     [Wrapper (Some 2) (Some ''tail''), Wrapper (Some 1) (Some [])]
   \<and> Wrapper (Some 1) (Some (concat (read_buffer closed_stream_with_tail)))
        \<notin> set (callbacks (io_loop (snd (read_until_close 1 (Some 2) closed_stream_with_tail))))"
  by (simp add: closed_stream_with_tail_def IOStream_init_def read_until_close_def
      set_read_callback_def closed_def Let_def split_beta consume_def merge_prefix_def
      run_callback_def)

section \<open>Claims about the write engine\<close>

lemma maybe_add_error_listener_open [simp]:
  "socket s \<noteq> None \<Longrightarrow>
     callbacks (io_loop (maybe_add_error_listener s)) = callbacks (io_loop s)"
  by (auto simp: maybe_add_error_listener_def)

lemma handle_write_loop_empty:
  "write_buffer s = [] \<Longrightarrow> handle_write_loop s = (Return Continue, s)"
  by (simp add: handle_write_loop.simps)

text \<open>
  Claim C10, as amended. Calling \<open>write(data, cb)\<close> with empty data on an open,
  non-connecting stream whose write buffer is empty, and which is not an SSL stream
  with an unfinished handshake, appends nothing to the write buffer and schedules
  \<open>cb\<close> at once: the callback slot is cleared again and the socket is not touched
  (no \<open>send\<close> call, no script consumed).
\<close>

theorem write_empty_data:
  assumes "socket s \<noteq> None" and "\<not> connecting s" and "write_buffer s = []"
    and "\<not> (is_ssl s \<and> ssl_accepting s)"
  shows "fst (IOStream_write [] (Some cb) s) = Return ()
    \<and> write_buffer (snd (IOStream_write [] (Some cb) s)) = []
    \<and> callbacks (io_loop (snd (IOStream_write [] (Some cb) s))) =
        callbacks (io_loop s) @ [Wrapper (Some cb) None]
    \<and> write_callback (snd (IOStream_write [] (Some cb) s)) = None
    \<and> net (snd (IOStream_write [] (Some cb) s)) = net s"
  using assms
  by (simp add: IOStream_write_def check_closed_def handle_write_def
      IOStream_handle_write_def handle_write_loop_empty Let_def)

theorem write_empty_data_witness:
  "socket small_stream \<noteq> None \<and> \<not> connecting small_stream
    \<and> write_buffer small_stream = []
    \<and> \<not> (is_ssl small_stream \<and> ssl_accepting small_stream)
    \<and> callbacks (io_loop (snd (IOStream_write [] (Some 5) small_stream))) =
        [Wrapper (Some 5) None]
    \<and> send_calls (net (snd (IOStream_write [] (Some 5) small_stream))) = []"
proof -
  have h: "socket small_stream \<noteq> None" "\<not> connecting small_stream"
    "write_buffer small_stream = []" "\<not> (is_ssl small_stream \<and> ssl_accepting small_stream)"
    by (simp_all add: small_stream_def IOStream_init_def)
  from write_empty_data [OF h, of 5] h show ?thesis
    by (simp add: small_stream_def IOStream_init_def example_net_def)
qed

text \<open>
  Claim C10 as stated covers every open, non-connecting stream with an empty write
  buffer. On an \<open>SSLIOStream\<close> whose handshake is unfinished, \<open>write\<close> reaches
  \<open>SSLIOStream._handle_write\<close>, which runs the handshake and returns: the callback
  stays installed and nothing is scheduled.
\<close>

theorem write_empty_data_ssl_counterexample:
  "socket ssl_server_stream \<noteq> None \<and> \<not> connecting ssl_server_stream
    \<and> write_buffer ssl_server_stream = []
    \<and> fst (IOStream_write [] (Some 5) ssl_server_stream) = Return ()
    \<and> callbacks (io_loop (snd (IOStream_write [] (Some 5) ssl_server_stream))) = []
    \<and> write_callback (snd (IOStream_write [] (Some 5) ssl_server_stream)) = Some 5"
  by (simp add: ssl_server_stream_def SSLIOStream_init_def IOStream_init_def example_net_def
      IOStream_write_def check_closed_def handle_write_def do_ssl_handshake_def Let_def
      maybe_add_error_listener_def add_io_state_def)

lemma handle_write_round_calls:
  "socket s \<noteq> None \<Longrightarrow>
     send_calls (net (snd (handle_write_round s))) = send_calls (net s) @ [submitted s]"
  by (auto simp: handle_write_round_def submitted_def Let_def
      split: list.splits send_result.splits)

lemma handle_write_round_blocked:
  assumes "socket s \<noteq> None" and "next_send s = Send_would_block \<or> next_send s = Sent 0"
  shows "fst (handle_write_round s) = Return Break
    \<and> write_buffer_frozen (snd (handle_write_round s))
    \<and> hd (write_buffer (snd (handle_write_round s))) = submitted s
    \<and> concat (write_buffer (snd (handle_write_round s))) = concat (write_buffer s)
    \<and> (write_buffer_frozen s \<longrightarrow> write_buffer (snd (handle_write_round s)) = write_buffer s)"
  using assms
  by (auto simp: handle_write_round_def submitted_def next_send_def Let_def
        merge_prefix_concat
      split: list.splits send_result.splits)

lemma handle_write_round_sent:
  assumes "socket s \<noteq> None" and "next_send s = Sent n" and "0 < n"
  shows "fst (handle_write_round s) = Return Continue
    \<and> \<not> write_buffer_frozen (snd (handle_write_round s))
    \<and> concat (write_buffer (snd (handle_write_round s))) = drop n (concat (write_buffer s))"
  using assms
  by (auto simp: handle_write_round_def next_send_def Let_def
        merge_prefix_concat merge_prefix_tl
      split: list.splits send_result.splits)

lemma handle_write_loop_break:
  "write_buffer s \<noteq> [] \<Longrightarrow> fst (handle_write_round s) = Return Break \<Longrightarrow>
     handle_write_loop s = handle_write_round s"
  by (cases "handle_write_round s") (simp add: handle_write_loop.simps [of s])

text \<open>
  Claim C7. One round of the loop of \<open>_handle_write\<close> on an open stream with a
  non-empty write buffer. The buffer passed to \<open>send\<close> is the first chunk as it
  stands when \<open>write_buffer_frozen\<close> is set (no merge, no split), and the first
  chunk after \<open>_merge_prefix(write_buffer, 128 KiB)\<close> otherwise. If \<open>send\<close>
  returns 0 bytes or would-block, the loop stops there, \<open>write_buffer_frozen\<close> is
  set and the first chunk of the write buffer is the very buffer that was submitted;
  the bytes queued are unchanged, and a frozen buffer is unchanged chunk by chunk. If
  \<open>send\<close> returns \<open>N > 0\<close>, the flag is cleared and exactly the first \<open>N\<close>
  bytes leave the write buffer.
\<close>

theorem handle_write_freeze:
  assumes "write_buffer s \<noteq> []" and "socket s \<noteq> None"
  shows "(write_buffer_frozen s \<longrightarrow>
            send_calls (net (snd (handle_write_round s))) =
              send_calls (net s) @ [hd (write_buffer s)])
    \<and> (\<not> write_buffer_frozen s \<longrightarrow>
            send_calls (net (snd (handle_write_round s))) =
              send_calls (net s) @ [hd (merge_prefix (write_buffer s) (128 * 1024))])
    \<and> (next_send s = Send_would_block \<or> next_send s = Sent 0 \<longrightarrow>
          handle_write_loop s = handle_write_round s
          \<and> fst (handle_write_round s) = Return Break
          \<and> write_buffer_frozen (snd (handle_write_round s))
          \<and> hd (write_buffer (snd (handle_write_round s))) =
              last (send_calls (net (snd (handle_write_round s))))
          \<and> concat (write_buffer (snd (handle_write_round s))) = concat (write_buffer s)
          \<and> (write_buffer_frozen s \<longrightarrow>
                write_buffer (snd (handle_write_round s)) = write_buffer s))
    \<and> (\<forall>n. next_send s = Sent n \<and> 0 < n \<longrightarrow>
          fst (handle_write_round s) = Return Continue
          \<and> \<not> write_buffer_frozen (snd (handle_write_round s))
          \<and> concat (write_buffer (snd (handle_write_round s))) =
              drop n (concat (write_buffer s)))"
  using assms handle_write_round_calls [of s] handle_write_round_blocked [of s]
    handle_write_round_sent [of s] handle_write_loop_break [of s]
  by (simp add: submitted_def)

text \<open>
  Two runs: \<open>send\<close> takes 3 bytes of \<open>hello\<close>, \<open>world\<close> (merged first);
  and \<open>send\<close> takes nothing from a frozen buffer, which stays as it is.
\<close>

theorem handle_write_freeze_witness:
  "write_buffer (writing_stream [Sent 3] False) \<noteq> []
    \<and> socket (writing_stream [Sent 3] False) \<noteq> None
    \<and> next_send (writing_stream [Sent 3] False) = Sent 3
    \<and> send_calls (net (snd (handle_write_round (writing_stream [Sent 3] False)))) =
        [''helloworld'']
    \<and> concat (write_buffer (snd (handle_write_round (writing_stream [Sent 3] False)))) =
        ''loworld''
    \<and> next_send (writing_stream [Sent 0] True) = Sent 0
    \<and> write_buffer_frozen (writing_stream [Sent 0] True)
    \<and> send_calls (net (snd (handle_write_round (writing_stream [Sent 0] True)))) = [''hello'']
    \<and> write_buffer (snd (handle_write_round (writing_stream [Sent 0] True))) =
        [''hello'', ''world'']
    \<and> write_buffer_frozen (snd (handle_write_round (writing_stream [Sent 0] True)))"
proof -
  have a: "write_buffer (writing_stream [Sent 3] False) \<noteq> []"
    "socket (writing_stream [Sent 3] False) \<noteq> None"
    "next_send (writing_stream [Sent 3] False) = Sent 3"
    "\<not> write_buffer_frozen (writing_stream [Sent 3] False)"
    "hd (merge_prefix (write_buffer (writing_stream [Sent 3] False)) (128 * 1024)) =
       ''helloworld''"
    "send_calls (net (writing_stream [Sent 3] False)) = []"
    "concat (write_buffer (writing_stream [Sent 3] False)) = ''helloworld''"
    by (simp_all add: writing_stream_def IOStream_init_def example_net_def next_send_def
        merge_prefix_def merge_prefix_loop.simps)
  have b: "write_buffer (writing_stream [Sent 0] True) \<noteq> []"
    "socket (writing_stream [Sent 0] True) \<noteq> None"
    "next_send (writing_stream [Sent 0] True) = Sent 0"
    "write_buffer_frozen (writing_stream [Sent 0] True)"
    "send_calls (net (writing_stream [Sent 0] True)) = []"
    "write_buffer (writing_stream [Sent 0] True) = [''hello'', ''world'']"
    by (simp_all add: writing_stream_def IOStream_init_def example_net_def next_send_def)
  from handle_write_freeze [OF a(1,2)] a
  have "send_calls (net (snd (handle_write_round (writing_stream [Sent 3] False)))) =
          [''helloworld'']
      \<and> concat (write_buffer (snd (handle_write_round (writing_stream [Sent 3] False)))) =
          ''loworld''"
    by simp
  moreover from handle_write_freeze [OF b(1,2)] b
  have "send_calls (net (snd (handle_write_round (writing_stream [Sent 0] True)))) = [''hello'']
      \<and> write_buffer (snd (handle_write_round (writing_stream [Sent 0] True))) =
          [''hello'', ''world'']
      \<and> write_buffer_frozen (snd (handle_write_round (writing_stream [Sent 0] True)))"
    by simp
  ultimately show ?thesis using a(1,2,3) b(3,4) by simp
qed

section \<open>Claims about the TLS handshake\<close>

lemma close_schedules:
  "\<exists>es. callbacks (io_loop (close s)) = callbacks (io_loop s) @ es
     \<and> (\<forall>e\<in>set es. e = Wrapper (close_callback s) None
            \<or> (\<exists>d. e = Wrapper (read_callback s) (Some d)))"
  by (auto simp: close_def maybe_run_close_callback_def Let_def split_beta)

subsection \<open>What each method keeps while the handshake is pending\<close>

lemma consumed_self [simp]: "consumed xs xs = []"
  by (simp add: consumed_def)

lemma consumed_append [simp]: "consumed (xs @ ys) ys = xs"
  by (simp add: consumed_def)

lemma consumed_eq: "consumed xs ys @ ys = xs \<Longrightarrow> \<exists>pre. xs = pre @ ys"
  by metis

lemma consumed_trans:
  assumes "consumed xs ys @ ys = xs" and "consumed ys zs @ zs = ys"
  shows "consumed xs zs = consumed xs ys @ consumed ys zs"
proof -
  from assms obtain a b where "xs = a @ ys" "ys = b @ zs" by metis
  then show ?thesis using consumed_append [of "a @ b" zs] by simp
qed

lemma consumed_tl:
  assumes "consumed xs ys @ ys = xs"
  shows "consumed xs (tl ys) @ tl ys = xs"
    and "set (consumed xs ys) \<subseteq> set (consumed xs (tl ys))"
    and "ys = r # rest \<Longrightarrow> r \<in> set (consumed xs (tl ys))"
proof -
  have "consumed ys (tl ys) @ tl ys = ys"
    by (cases ys) (simp_all add: consumed_def)
  from consumed_trans [OF assms this] this assms
  show "consumed xs (tl ys) @ tl ys = xs"
    and "set (consumed xs ys) \<subseteq> set (consumed xs (tl ys))"
    and "ys = r # rest \<Longrightarrow> r \<in> set (consumed xs (tl ys))"
    by (auto simp: consumed_def)
qed

lemma calm_refl [simp]: "calm c s s"
  by (simp add: calm_def)

lemma calm_trans:
  assumes "calm c s s1" and "calm c s1 s2"
  shows "calm c s s2"
proof -
  let ?h = "\<lambda>x. handshakes (net x)"
  from assms have a: "consumed (?h s) (?h s1) @ ?h s1 = ?h s"
    and b: "consumed (?h s1) (?h s2) @ ?h s2 = ?h s1"
    by (simp_all add: calm_def)
  have t: "consumed (?h s) (?h s2) = consumed (?h s) (?h s1) @ consumed (?h s1) (?h s2)"
    using a b by (rule consumed_trans)
  have c1: "consumed (?h s) (?h s2) @ ?h s2 = ?h s"
    using a b t by simp
  show ?thesis
    using assms c1 unfolding calm_def t
    by (intro conjI impI; force)
qed

lemma calm_slots:
  "calm c s t \<Longrightarrow> \<not> holds_outside_stash c s \<Longrightarrow> \<not> holds_outside_stash c t"
  by (simp add: calm_def)

named_theorems calm_intros

lemma run_callback_calm:
  "calm c s t \<Longrightarrow> (\<not> holds_outside_stash c s \<longrightarrow> cb \<noteq> Some c) \<Longrightarrow>
     calm c s (run_callback cb args t)"
  by (auto simp: calm_def fired_def holds_outside_stash_def)

lemma calm_update [calm_intros]:
  assumes "calm c s t"
  shows "calm c s (t\<lparr> max_buffer_size := v1 \<rparr>)"
    "calm c s (t\<lparr> read_chunk_size := v2 \<rparr>)"
    "calm c s (t\<lparr> read_buffer := v3 \<rparr>)"
    "calm c s (t\<lparr> write_buffer := v4 \<rparr>)"
    "calm c s (t\<lparr> read_buffer_size := v5 \<rparr>)"
    "calm c s (t\<lparr> write_buffer_frozen := v6 \<rparr>)"
    "calm c s (t\<lparr> read_delimiter := v7 \<rparr>)"
    "calm c s (t\<lparr> read_regex := v8 \<rparr>)"
    "calm c s (t\<lparr> read_bytes_fld := v9 \<rparr>)"
    "calm c s (t\<lparr> read_until_close_fld := v10 \<rparr>)"
    "calm c s (t\<lparr> connecting := v11 \<rparr>)"
    "calm c s (t\<lparr> io_state := v12 \<rparr>)"
    "calm c s (t\<lparr> is_ssl := v13 \<rparr>)"
    "calm c s (t\<lparr> handshake_reading := v14 \<rparr>)"
    "calm c s (t\<lparr> handshake_writing := v15 \<rparr>)"
    "calm c s (t\<lparr> io_loop := (io_loop t)\<lparr> handler := h \<rparr> \<rparr>)"
    "calm c s (t\<lparr> io_loop := (io_loop t)\<lparr> started := k \<rparr> \<rparr>)"
    "calm c s (t\<lparr> io_loop := (io_loop t)\<lparr> callbacks := callbacks (io_loop t) @ [Bound_close] \<rparr> \<rparr>)"
  using assms by (auto simp: calm_def fired_def holds_outside_stash_def split: if_splits)

lemma calm_net [calm_intros]:
  "calm c s t \<Longrightarrow> handshakes v = handshakes (net t) \<Longrightarrow> calm c s (t\<lparr> net := v \<rparr>)"
  by (auto simp: calm_def fired_def holds_outside_stash_def)

lemma calm_set_slot [calm_intros]:
  assumes "calm c s t" and "cb \<noteq> Some c"
  shows "calm c s (t\<lparr> read_callback := cb \<rparr>)"
    "calm c s (t\<lparr> streaming_callback := cb \<rparr>)"
    "calm c s (t\<lparr> write_callback := cb \<rparr>)"
    "calm c s (t\<lparr> connect_callback := cb \<rparr>)"
    "calm c s (t\<lparr> ssl_connect_callback := cb \<rparr>)"
    "calm c s (t\<lparr> close_callback := cb \<rparr>)"
  using assms by (auto simp: calm_def fired_def holds_outside_stash_def split: if_splits)

lemma calm_socket:
  "socket s \<noteq> None \<Longrightarrow> calm c s (s\<lparr> socket := x \<rparr>)"
  by (auto simp: calm_def fired_def holds_outside_stash_def)

lemma calm_bump:
  "calm c (s\<lparr> pending_callbacks := pending_callbacks s + 1 \<rparr>) t \<Longrightarrow>
     calm c s (t\<lparr> pending_callbacks := pending_callbacks t - 1 \<rparr>)"
  by (auto simp: calm_def fired_def holds_outside_stash_def)

lemma consume_calm: "calm c s (snd (consume loc s))"
  by (auto simp: calm_def fired_def holds_outside_stash_def)

lemma maybe_run_close_callback_calm: "calm c s (maybe_run_close_callback s)"
  by (auto simp: calm_def fired_def holds_outside_stash_def maybe_run_close_callback_def Let_def)

lemma add_io_state_calm: "calm c s (add_io_state st s)"
  by (auto simp: calm_def fired_def holds_outside_stash_def)

lemma maybe_add_error_listener_calm: "calm c s (maybe_add_error_listener s)"
  by (simp add: maybe_add_error_listener_def maybe_run_close_callback_calm add_io_state_calm)

lemma close_calm: "calm c s (close s)"
  by (auto simp: calm_def fired_def holds_outside_stash_def maybe_run_close_callback_def close_def Let_def split_beta)

lemma calm_then [calm_intros]:
  assumes "calm c s t"
  shows "calm c s (snd (consume loc t))"
    "calm c s (maybe_run_close_callback t)"
    "calm c s (close t)"
    "calm c s (add_io_state st t)"
    "calm c s (maybe_add_error_listener t)"
  using assms consume_calm maybe_run_close_callback_calm close_calm add_io_state_calm
    maybe_add_error_listener_calm calm_trans
  by blast+

lemma IOStream_read_from_socket_calm:
  "calm c s t \<Longrightarrow> calm c s (snd (IOStream_read_from_socket t))"
  by (auto simp: IOStream_read_from_socket_def Let_def
      split: list.splits recv_result.splits intro!: calm_intros)

lemma read_from_socket_calm [calm_intros]:
  "calm c s t \<Longrightarrow> calm c s (snd (read_from_socket t))"
  by (simp add: read_from_socket_def SSLIOStream_read_from_socket_def
      IOStream_read_from_socket_calm)

lemma read_to_buffer_calm [calm_intros]:
  "calm c s t \<Longrightarrow> calm c s (snd (read_to_buffer t))"
  using read_from_socket_calm [of c s t]
  by (auto simp: read_to_buffer_def Let_def
      split: prod.splits result.splits option.splits intro!: calm_intros)

lemma read_loop_calm [calm_intros]:
  "calm c s t \<Longrightarrow> calm c s (snd (read_loop t))"
proof (induction t rule: read_loop.induct)
  case (1 t)
  from "1.prems" have q: "calm c s (snd (read_to_buffer t))" by (rule read_to_buffer_calm)
  show ?case
  proof (cases "read_to_buffer t")
    case (Pair r t1)
    with q have q1: "calm c s t1" by simp
    show ?thesis
    proof (cases r)
      case (Raise e)
      with Pair q1 show ?thesis by (simp add: read_loop.simps [of t])
    next
      case (Return n)
      show ?thesis
      proof (cases "n = 0")
        case True
        with Pair Return q1 show ?thesis by (simp add: read_loop.simps [of t])
      next
        case False
        from "1.IH" [OF Pair [symmetric] Return False q1] Pair Return False
        show ?thesis by (simp add: read_loop.simps [of t])
      qed
    qed
  qed
qed

lemma inline_read_loop_calm [calm_intros]:
  "calm c s t \<Longrightarrow> calm c s (snd (inline_read_loop t))"
proof (induction t rule: inline_read_loop.induct)
  case (1 t)
  from "1.prems" have q: "calm c s (snd (read_to_buffer t))" by (rule read_to_buffer_calm)
  show ?case
  proof (cases "read_to_buffer t")
    case (Pair r t1)
    with q have q1: "calm c s t1" by simp
    show ?thesis
    proof (cases r)
      case (Raise e)
      with Pair q1 show ?thesis by (simp add: inline_read_loop.simps [of t])
    next
      case (Return n)
      show ?thesis
      proof (cases "n = 0")
        case True
        with Pair Return q1 show ?thesis by (simp add: inline_read_loop.simps [of t])
      next
        case False
        show ?thesis
        proof (cases "check_closed t1")
          case (Raise e)
          with Pair Return False q1 show ?thesis by (simp add: inline_read_loop.simps [of t])
        next
          case r2: (Return u)
          from "1.IH" [OF Pair [symmetric] Return False r2 q1] Pair Return False r2
          show ?thesis by (simp add: inline_read_loop.simps [of t])
        qed
      qed
    qed
  qed
qed

lemma calm_slot_facts:
  "calm c s t \<Longrightarrow> \<not> holds_outside_stash c s \<Longrightarrow>
     read_callback t \<noteq> Some c \<and> streaming_callback t \<noteq> Some c \<and> write_callback t \<noteq> Some c
     \<and> connect_callback t \<noteq> Some c"
  by (simp add: calm_def holds_outside_stash_def)

lemma stream_step_calm [calm_intros]:
  "calm c s t \<Longrightarrow> calm c s (stream_step t)"
  by (auto simp: stream_step_def Let_def split_beta split: option.splits
      intro!: calm_intros run_callback_calm dest: calm_slot_facts)

lemma finish_search_calm:
  assumes "calm c s t" and "finish_search t clear found = Some (b, t')"
    and "\<And>u. calm c s u \<Longrightarrow> calm c s (clear u)"
  shows "calm c s t'"
proof (cases found)
  case None
  with assms(2) show ?thesis by (simp add: finish_search_def)
next
  case (Some nb)
  obtain r buf where nb: "nb = (r, buf)" by (cases nb)
  show ?thesis
  proof (cases r)
    case None
    with Some nb assms(1,2) show ?thesis
      by (auto simp: finish_search_def intro!: calm_intros)
  next
    case (Some n)
    let ?t1 = "clear (t\<lparr> read_buffer := buf, read_callback := None,
                           streaming_callback := None \<rparr>)"
    have "calm c s ?t1"
      by (rule assms(3)) (auto intro!: calm_intros assms(1))
    then have "calm c s (snd (consume (int n) ?t1))" by (rule calm_then)
    then have "calm c s (run_callback (read_callback t) (Some (fst (consume (int n) ?t1)))
        (snd (consume (int n) ?t1)))"
      using calm_slot_facts [OF assms(1)] by (intro run_callback_calm) auto
    with \<open>found = Some nb\<close> nb Some assms(2) show ?thesis
      by (auto simp: finish_search_def Let_def split_beta)
  qed
qed

lemma read_from_buffer_calm:
  assumes "calm c s t" and "read_from_buffer t = Some (b, t')"
  shows "calm c s t'"
proof -
  let ?u = "stream_step t"
  have u: "calm c s ?u" using assms(1) by (rule stream_step_calm)
  show ?thesis
  proof (cases "read_bytes_fld ?u \<noteq> None \<and> read_buffer_size ?u \<ge> the (read_bytes_fld ?u)")
    case True
    let ?u1 = "?u\<lparr> read_callback := None, streaming_callback := None,
                     read_bytes_fld := None \<rparr>"
    have "calm c s ?u1" by (auto intro!: calm_intros u)
    then have "calm c s (snd (consume (the (read_bytes_fld ?u)) ?u1))" by (rule calm_then)
    then have "calm c s (run_callback (read_callback ?u)
        (Some (fst (consume (the (read_bytes_fld ?u)) ?u1)))
        (snd (consume (the (read_bytes_fld ?u)) ?u1)))"
      using calm_slot_facts [OF u] by (intro run_callback_calm) auto
    with True assms(2) show ?thesis
      by (auto simp: read_from_buffer_def Let_def split_beta)
  next
    case False
    show ?thesis
    proof (cases "read_delimiter ?u \<noteq> None")
      case True
      with False assms(2) u show ?thesis
        by (auto simp: read_from_buffer_def Let_def split: if_splits
            elim!: finish_search_calm [rotated] intro!: calm_intros)
    next
      case nd: False
      with False assms(2) u show ?thesis
        by (auto simp: read_from_buffer_def Let_def split: if_splits
            elim!: finish_search_calm [rotated] intro!: calm_intros)
    qed
  qed
qed

lemma handle_write_round_calm:
  "calm c s t \<Longrightarrow> calm c s (snd (handle_write_round t))"
  by (auto simp: handle_write_round_def Let_def
      split: list.splits send_result.splits intro!: calm_intros)

lemma handle_write_loop_calm:
  "calm c s t \<Longrightarrow> calm c s (snd (handle_write_loop t))"
proof (induction t rule: handle_write_loop.induct)
  case (1 t)
  show ?case
  proof (cases "write_buffer t \<noteq> []")
    case False
    with "1.prems" show ?thesis by (simp add: handle_write_loop.simps [of t])
  next
    case True
    from "1.prems" have q: "calm c s (snd (handle_write_round t))"
      by (rule handle_write_round_calm)
    show ?thesis
    proof (cases "handle_write_round t")
      case (Pair r t1)
      with q have q1: "calm c s t1" by simp
      show ?thesis
      proof (cases "r = Return Continue")
        case True
        from "1.IH" [OF \<open>write_buffer t \<noteq> []\<close> Pair [symmetric]] True q1 Pair
          \<open>write_buffer t \<noteq> []\<close>
        show ?thesis by (simp add: handle_write_loop.simps [of t])
      next
        case False
        with Pair q1 \<open>write_buffer t \<noteq> []\<close> show ?thesis
          by (auto simp: handle_write_loop.simps [of t]
              split: result.splits loop_exit.splits)
      qed
    qed
  qed
qed

lemma IOStream_handle_write_calm:
  "calm c s t \<Longrightarrow> calm c s (snd (IOStream_handle_write t))"
  using handle_write_loop_calm [of c s t]
  by (auto simp: IOStream_handle_write_def Let_def
      split: prod.splits result.splits loop_exit.splits
      intro!: calm_intros run_callback_calm dest: calm_slot_facts)

lemma calm_tl:
  assumes "calm c s t" and "handshakes v = tl (handshakes (net t))"
  shows "calm c s (t\<lparr> net := v \<rparr>)"
proof -
  from assms(1) have e: "consumed (handshakes (net s)) (handshakes (net t)) @ handshakes (net t)
      = handshakes (net s)"
    by (simp add: calm_def)
  from consumed_tl(1,2) [OF e] assms show ?thesis
    by (auto simp: calm_def fired_def holds_outside_stash_def)
qed

lemma calm_done:
  assumes "calm c s t" and "handshakes (net t) = Hs_done # rest" and "handshakes v = rest"
  shows "calm c s (t\<lparr> net := v, ssl_accepting := False \<rparr>)"
proof -
  from assms(1) have e: "consumed (handshakes (net s)) (handshakes (net t)) @ handshakes (net t)
      = handshakes (net s)"
    by (simp add: calm_def)
  from consumed_tl(1) [OF e] consumed_tl(3) [OF e assms(2)] assms show ?thesis
    by (auto simp: calm_def fired_def holds_outside_stash_def)
qed

lemma calm_run_after:
  "calm c s t \<Longrightarrow> \<not> ssl_accepting t \<Longrightarrow> calm c s (run_callback cb args t)"
  by (auto simp: calm_def fired_def holds_outside_stash_def)

lemma do_ssl_handshake_calm:
  assumes "calm c s t"
  shows "calm c s (snd (do_ssl_handshake t))"
proof (cases "socket t = Some SSL_socket")
  case False
  with assms show ?thesis
    by (auto simp: do_ssl_handshake_def Let_def intro!: calm_update)
next
  case True
  let ?t1 = "t\<lparr> handshake_reading := False, handshake_writing := False \<rparr>"
  let ?t2 = "?t1\<lparr> net := (net ?t1)\<lparr> handshakes := tl (handshakes (net ?t1)) \<rparr> \<rparr>"
  have q1: "calm c s ?t1" by (intro calm_update assms)
  show ?thesis
  proof (cases "(case handshakes (net t) of [] \<Rightarrow> Hs_want_read | r # _ \<Rightarrow> r) = Hs_done")
    case success: True
    then have hs: "handshakes (net ?t1) = Hs_done # tl (handshakes (net t))"
      by (cases "handshakes (net t)") auto
    let ?t3 = "?t1\<lparr> net := (net ?t1)\<lparr> handshakes := tl (handshakes (net ?t1)) \<rparr>,
                    ssl_accepting := False \<rparr>"
    have q3: "calm c s ?t3" using q1 hs by (rule calm_done) simp
    then have q4: "calm c s (?t3\<lparr> ssl_connect_callback := None \<rparr>)"
      by (rule calm_set_slot) simp
    then have q5: "calm c s (run_callback cb None (?t3\<lparr> ssl_connect_callback := None \<rparr>))" for cb
      by (rule calm_run_after) simp
    from True success q3 q5 show ?thesis
      by (simp add: do_ssl_handshake_def Let_def)
  next
    case False
    have q2: "calm c s ?t2" using q1 by (rule calm_tl) simp
    have q6: "calm c s (?t2\<lparr> handshake_reading := True \<rparr>)"
      "calm c s (?t2\<lparr> handshake_writing := True \<rparr>)" "calm c s (close ?t2)"
      by (rule calm_update [OF q2] calm_then [OF q2])+
    from True False q2 q6 show ?thesis
      by (simp add: do_ssl_handshake_def Let_def split: handshake_result.splits)
  qed
qed

lemma handle_write_calm [calm_intros]:
  "calm c s t \<Longrightarrow> calm c s (snd (handle_write t))"
  by (simp add: handle_write_def IOStream_handle_write_calm do_ssl_handshake_calm)

lemma IOStream_handle_read_calm:
  assumes "calm c s t" and "IOStream_handle_read t = Some (r, t')"
  shows "calm c s t'"
proof -
  let ?b = "t\<lparr> pending_callbacks := pending_callbacks t + 1 \<rparr>"
  let ?l = "snd (read_loop ?b)"
  let ?d = "?l\<lparr> pending_callbacks := pending_callbacks ?l - 1 \<rparr>"
  have "calm c ?b ?l" by (rule read_loop_calm) simp
  then have "calm c t ?d" by (rule calm_bump)
  with assms(1) have d: "calm c s ?d" by (rule calm_trans)
  show ?thesis
  proof (cases "read_loop ?b")
    case (Pair x l)
    show ?thesis
    proof (cases x)
      case (Raise e)
      with Pair assms(2) d show ?thesis
        by (auto simp: IOStream_handle_read_def intro!: calm_intros)
    next
      case (Return v)
      with Pair assms(2) d show ?thesis
        by (auto simp: IOStream_handle_read_def
            split: option.splits prod.splits bool.splits
            dest!: read_from_buffer_calm [rotated] intro!: calm_intros)
    qed
  qed
qed

lemma handle_read_calm:
  assumes "calm c s t" and "handle_read t = Some (r, t')"
  shows "calm c s t'"
  using assms do_ssl_handshake_calm [OF assms(1)]
  by (auto simp: handle_read_def split: if_splits elim: IOStream_handle_read_calm)

lemma IOStream_handle_connect_calm:
  "calm c s t \<Longrightarrow> calm c s (snd (IOStream_handle_connect t))"
  by (auto simp: IOStream_handle_connect_def Let_def
      intro!: calm_intros run_callback_calm dest: calm_slot_facts)

lemma handle_connect_calm [calm_intros]:
  assumes "calm c s t"
  shows "calm c s (snd (handle_connect t))"
proof (cases "is_ssl t \<and> socket t \<noteq> None")
  case False
  with assms show ?thesis
    by (auto simp: handle_connect_def SSLIOStream_handle_connect_def
        IOStream_handle_connect_calm)
next
  case True
  from True have "calm c t (t\<lparr> socket := Some SSL_socket \<rparr>)" by (intro calm_socket) simp
  with assms have "calm c s (t\<lparr> socket := Some SSL_socket \<rparr>)" by (rule calm_trans)
  then have "calm c s (snd (IOStream_handle_connect (t\<lparr> socket := Some SSL_socket \<rparr>)))"
    by (rule IOStream_handle_connect_calm)
  with True show ?thesis
    by (auto simp: handle_connect_def SSLIOStream_handle_connect_def)
qed

lemma handle_events_write_calm [calm_intros]:
  "calm c s t \<Longrightarrow> calm c s (snd (handle_events_write events t))"
  using handle_connect_calm [of c s t]
  by (auto simp: handle_events_write_def
      split: prod.splits result.splits intro!: calm_intros)

lemma calm_same:
  assumes "calm c s t" and "socket t' = socket t"
    and "pending_callbacks t' = pending_callbacks t"
    and "callbacks (io_loop t') = callbacks (io_loop t)"
    and "read_callback t' = read_callback t" and "streaming_callback t' = streaming_callback t"
    and "write_callback t' = write_callback t" and "connect_callback t' = connect_callback t"
    and "close_callback t' = close_callback t"
    and "ssl_connect_callback t' = ssl_connect_callback t"
    and "ssl_accepting t' = ssl_accepting t"
    and "handshakes (net t') = handshakes (net t)"
  shows "calm c s t'"
  using assms by (auto simp: calm_def fired_def holds_outside_stash_def)

lemma update_interest_calm [calm_intros]:
  assumes "calm c s t"
  shows "calm c s (snd (update_interest t))"
  by (rule calm_same [OF assms]) (simp_all add: update_interest_def Let_def)

lemma handle_events_body_calm:
  assumes "calm c s t" and "handle_events_body events t = Some (r, t')"
  shows "calm c s t'"
proof -
  obtain r1 t1 where hr: "(if READ \<in> events then handle_read t else Some (Return (), t)) = Some (r1, t1)"
    using assms(2) by (auto simp: handle_events_body_def split: option.splits)
  have q1: "calm c s t1"
    using hr assms(1) by (auto split: if_splits elim: handle_read_calm [rotated])
  have q2: "calm c s (snd (handle_events_write events t1))"
    using q1 by (rule handle_events_write_calm)
  have q3: "calm c s (snd (update_interest (snd (handle_events_write events t1))))"
    using q2 by (rule update_interest_calm)
  show ?thesis
    using assms(2) hr q1 q2 q3
    by (auto simp: handle_events_body_def
        split: result.splits prod.splits if_splits intro!: calm_intros)
qed

lemma handle_events_calm:
  assumes "calm c s t" and "handle_events events t = Some (r, t')"
  shows "calm c s t'"
  using assms
  by (auto simp: handle_events_def
      split: if_splits option.splits prod.splits result.splits
      dest!: handle_events_body_calm [rotated] intro!: calm_intros)

lemma set_read_callback_calm:
  "calm c s t \<Longrightarrow> cb \<noteq> c \<Longrightarrow> calm c s (snd (set_read_callback cb t))"
  by (auto simp: set_read_callback_def intro!: calm_intros)

lemma try_inline_read_calm:
  assumes "calm c s t" and "try_inline_read t = Some (r, t')"
  shows "calm c s t'"
proof -
  obtain b t1 where rb: "read_from_buffer t = Some (b, t1)"
    using assms(2) by (auto simp: try_inline_read_def split: option.splits)
  have q1: "calm c s t1" using assms(1) rb by (rule read_from_buffer_calm)
  show ?thesis
  proof (cases "b \<or> check_closed t1 \<noteq> Return ()")
    case True
    with assms(2) rb q1 show ?thesis
      by (auto simp: try_inline_read_def split: result.splits bool.splits)
  next
    case False
    let ?b = "t1\<lparr> pending_callbacks := pending_callbacks t1 + 1 \<rparr>"
    let ?l = "snd (inline_read_loop ?b)"
    let ?d = "?l\<lparr> pending_callbacks := pending_callbacks ?l - 1 \<rparr>"
    have "calm c ?b ?l" by (rule inline_read_loop_calm) simp
    then have "calm c t1 ?d" by (rule calm_bump)
    with q1 have d: "calm c s ?d" by (rule calm_trans)
    show ?thesis
    proof (cases "inline_read_loop ?b")
      case (Pair x l)
      show ?thesis
      proof (cases x)
        case (Raise e)
        with Pair False assms(2) rb d show ?thesis
          by (auto simp: try_inline_read_def)
      next
        case (Return v)
        with Pair False assms(2) rb d show ?thesis
          by (auto simp: try_inline_read_def
              split: option.splits prod.splits bool.splits
              dest!: read_from_buffer_calm [rotated] intro!: calm_intros)
      qed
    qed
  qed
qed

lemma armed_read_calm:
  assumes "calm c s t" and "cb \<noteq> c"
    and "\<And>u. calm c s u \<Longrightarrow> calm c s (arm u)"
    and "(case set_read_callback cb t of
            (Raise e, t1) \<Rightarrow> Some (Raise e, t1)
          | (Return x, t1) \<Rightarrow> try_inline_read (arm t1)) = Some (r, t')"
  shows "calm c s t'"
proof (cases "set_read_callback cb t")
  case (Pair x t1)
  from set_read_callback_calm [OF assms(1,2)] Pair have q1: "calm c s t1" by simp
  show ?thesis
  proof (cases x)
    case (Raise e)
    with Pair assms(4) q1 show ?thesis by simp
  next
    case (Return v)
    with Pair assms(4) have "try_inline_read (arm t1) = Some (r, t')" by simp
    with assms(3) [OF q1] show ?thesis by (rule try_inline_read_calm)
  qed
qed

lemma read_until_regex_calm:
  assumes "calm c s t" and "cb \<noteq> c" and "read_until_regex rx cb t = Some (r, t')"
  shows "calm c s t'"
  by (rule armed_read_calm [OF assms(1,2), where arm = "\<lambda>u. u\<lparr> read_regex := Some rx \<rparr>"])
     (use assms(3) in \<open>auto simp: read_until_regex_def intro: calm_intros\<close>)

lemma read_until_calm:
  assumes "calm c s t" and "cb \<noteq> c" and "read_until d cb t = Some (r, t')"
  shows "calm c s t'"
  by (rule armed_read_calm [OF assms(1,2), where arm = "\<lambda>u. u\<lparr> read_delimiter := Some d \<rparr>"])
     (use assms(3) in \<open>auto simp: read_until_def intro: calm_intros\<close>)

lemma read_bytes_calm:
  assumes "calm c s t" and "cb \<noteq> c" and "scb \<noteq> Some c"
    and "read_bytes n cb scb t = Some (r, t')"
  shows "calm c s t'"
  by (rule armed_read_calm [OF assms(1,2),
        where arm = "\<lambda>u. u\<lparr> read_bytes_fld := Some n, streaming_callback := scb \<rparr>"])
     (use assms(3,4) in \<open>auto simp: read_bytes_def intro!: calm_intros\<close>)

lemma read_until_close_calm:
  assumes "calm c s t" and "cb \<noteq> c" and "scb \<noteq> Some c"
  shows "calm c s (snd (read_until_close cb scb t))"
proof (cases "read_callback t \<noteq> None")
  case True
  with assms(1) show ?thesis
    by (simp add: read_until_close_def set_read_callback_def)
next
  case False
  let ?t2 = "t\<lparr> read_callback := Some cb, streaming_callback := scb \<rparr>"
  have q2: "calm c s ?t2" using assms by (intro calm_intros) auto
  show ?thesis
  proof (cases "closed ?t2")
    case open_stream: False
    from q2 have "calm c s (?t2\<lparr> read_until_close_fld := True \<rparr>)" by (rule calm_update)
    then have "calm c s (?t2\<lparr> read_until_close_fld := True, streaming_callback := scb \<rparr>)"
      using assms(3) by (rule calm_set_slot)
    then have "calm c s (add_io_state {READ}
        (?t2\<lparr> read_until_close_fld := True, streaming_callback := scb \<rparr>))"
      by (rule calm_then)
    with False open_stream show ?thesis
      by (simp add: read_until_close_def set_read_callback_def Let_def)
  next
    case True
    with False assms show ?thesis
      by (cases scb)
         (auto simp: read_until_close_def set_read_callback_def Let_def split_beta calm_def fired_def holds_outside_stash_def)
  qed
qed

lemma IOStream_write_calm:
  assumes "calm c s t" and "cb \<noteq> Some c"
  shows "calm c s (snd (IOStream_write d cb t))"
proof (cases "check_closed t")
  case (Raise e)
  with assms(1) show ?thesis by (simp add: IOStream_write_def)
next
  case (Return v)
  let ?s1 = "if d \<noteq> [] then
               (if length d > WRITE_BUFFER_CHUNK_SIZE then
                  t\<lparr> write_buffer := write_buffer t @ split_chunks WRITE_BUFFER_CHUNK_SIZE d \<rparr>
                else t\<lparr> write_buffer := write_buffer t @ [d] \<rparr>)
             else t"
  let ?s2 = "?s1\<lparr> write_callback := cb \<rparr>"
  have "calm c s ?s1" by (auto intro: calm_update [OF assms(1)] assms(1))
  then have q2: "calm c s ?s2" using assms(2) by (rule calm_set_slot)
  then have q3: "calm c s (snd (handle_write ?s2))" by (rule handle_write_calm)
  let ?s3 = "snd (handle_write ?s2)"
  have "calm c s (if write_buffer ?s3 \<noteq> [] then add_io_state {WRITE} ?s3 else ?s3)"
    using q3 calm_then(4) [OF q3] by simp
  then have q4: "calm c s (maybe_add_error_listener
      (if write_buffer ?s3 \<noteq> [] then add_io_state {WRITE} ?s3 else ?s3))"
    by (rule calm_then(5))
  show ?thesis
  proof (cases "connecting ?s2")
    case True
    with Return q2 show ?thesis by (simp add: IOStream_write_def Let_def)
  next
    case False
    show ?thesis
    proof (cases "handle_write ?s2")
      case (Pair x s3)
      then have e: "snd (handle_write ?s2) = s3" by simp
      from Return False Pair q3 [unfolded e] q4 [unfolded e] show ?thesis
        by (cases x) (simp_all add: IOStream_write_def Let_def)
    qed
  qed
qed

lemma IOStream_connect_calm:
  "calm c s t \<Longrightarrow> cb \<noteq> Some c \<Longrightarrow> calm c s (snd (IOStream_connect cb t))"
  by (auto simp: IOStream_connect_def Let_def
      split: connect_result.splits intro!: calm_intros)

lemma wrapper_calm:
  "calm c s t \<Longrightarrow> calm c s (wrapper_returns t)"
  "calm c s t \<Longrightarrow> calm c s (wrapper_raises t)"
  by (auto simp: wrapper_returns_def wrapper_raises_def intro!: calm_intros)

lemma calm_stash:
  "calm c s t \<Longrightarrow> calm c s (t\<lparr> ssl_connect_callback := x \<rparr>)"
  by (auto simp: calm_def fired_def holds_outside_stash_def)

lemma calm_pending:
  "calm c s t \<Longrightarrow> calm c s (t\<lparr> pending_callbacks := n \<rparr>)"
  by (auto simp: calm_def fired_def holds_outside_stash_def)

lemma connect_calm:
  assumes "calm c s t" and "cb \<noteq> Some c \<or> is_ssl t"
  shows "calm c s (snd (connect cb t))"
proof (cases "is_ssl t")
  case True
  from assms(1) have "calm c s (t\<lparr> ssl_connect_callback := cb \<rparr>)" by (rule calm_stash)
  then have "calm c s (snd (IOStream_connect None (t\<lparr> ssl_connect_callback := cb \<rparr>)))"
    by (rule IOStream_connect_calm) simp
  with True show ?thesis by (simp add: connect_def SSLIOStream_connect_def)
next
  case False
  with assms show ?thesis by (simp add: connect_def IOStream_connect_calm)
qed

lemma set_close_callback_calm:
  "calm c s t \<Longrightarrow> cb \<noteq> Some c \<Longrightarrow> calm c s (set_close_callback cb t)"
  by (simp add: set_close_callback_def calm_set_slot)

lemma loop_run_next_calm:
  assumes "calm c s t"
  shows "calm c s (loop_run_next t)"
proof (cases "started (io_loop t) < length (callbacks (io_loop t))")
  case False
  with assms show ?thesis by (simp add: loop_run_next_def)
next
  case True
  let ?t1 = "t\<lparr> io_loop := (io_loop t)\<lparr> started := started (io_loop t) + 1 \<rparr> \<rparr>"
  have q1: "calm c s ?t1" using assms by (rule calm_update)
  have "calm c s (close ?t1)" using q1 by (rule calm_then)
  moreover have "calm c s (wrapper_begin ?t1)"
    unfolding wrapper_begin_def using q1 by (rule calm_pending)
  ultimately show ?thesis
    using True by (simp add: loop_run_next_def Let_def split: scheduled.splits)
qed

lemma step_calm:
  assumes "calm c s t" and "c \<notin> op_callbacks op" and "step op t = Some t'"
  shows "calm c s t'"
proof (cases op)
  case (Op_connect cb)
  with assms show ?thesis by (auto intro!: connect_calm)
next
  case (Op_read_until_regex r cb)
  with assms show ?thesis by (auto elim: read_until_regex_calm [rotated 2])
next
  case (Op_read_until d cb)
  with assms show ?thesis by (auto elim: read_until_calm [rotated 2])
next
  case (Op_read_bytes n cb scb)
  with assms show ?thesis by (auto elim: read_bytes_calm [rotated 3])
next
  case (Op_read_until_close cb scb)
  with assms show ?thesis by (auto intro!: read_until_close_calm)
next
  case (Op_write d cb)
  with assms show ?thesis by (auto intro!: IOStream_write_calm)
next
  case (Op_set_close_callback cb)
  with assms show ?thesis by (auto intro!: set_close_callback_calm)
next
  case Op_close
  with assms show ?thesis by (auto intro: calm_then)
next
  case (Op_handle_events events)
  with assms show ?thesis by (auto elim: handle_events_calm [rotated])
next
  case Loop_run_next
  with assms show ?thesis by (auto intro: loop_run_next_calm)
next
  case Callback_returns
  with assms show ?thesis by (auto intro: wrapper_calm)
next
  case Callback_raises
  with assms show ?thesis by (auto intro: wrapper_calm)
qed

lemma run_calm:
  assumes "calm c s t" and "\<forall>op\<in>set ops. c \<notin> op_callbacks op" and "run ops t = Some t'"
  shows "calm c s t'"
  using assms
proof (induction ops arbitrary: t)
  case Nil
  then show ?case by simp
next
  case (Cons op ops)
  from Cons.prems(3) obtain t1 where st: "step op t = Some t1" and rn: "run ops t1 = Some t'"
    by (auto split: option.splits)
  from Cons.prems(1,2) st have "calm c s t1" by (auto intro: step_calm)
  from Cons.IH [OF this _ rn] Cons.prems(2) show ?case by simp
qed

lemma ssl_connect_run_calm:
  assumes "is_ssl s0" and "\<forall>op\<in>set ops. c \<notin> op_callbacks op"
    and "run (Op_connect (Some c) # ops) s0 = Some s"
  shows "calm c s0 s"
proof -
  have "calm c s0 (snd (connect (Some c) s0))"
    using assms(1) by (intro connect_calm) simp_all
  with assms(2,3) show ?thesis by (auto intro: run_calm)
qed

lemma do_ssl_handshake_outcomes:
  assumes "socket s = Some SSL_socket" and "handshakes (net s) = r # rest"
  shows "(r = Hs_want_read \<longrightarrow>
            fst (do_ssl_handshake s) = Return ()
            \<and> handshake_reading (snd (do_ssl_handshake s))
            \<and> \<not> handshake_writing (snd (do_ssl_handshake s))
            \<and> callbacks (io_loop (snd (do_ssl_handshake s))) = callbacks (io_loop s))
    \<and> (r \<noteq> Hs_done \<longrightarrow>
            ssl_accepting (snd (do_ssl_handshake s)) = ssl_accepting s
            \<and> ssl_connect_callback (snd (do_ssl_handshake s)) = ssl_connect_callback s
            \<and> (\<exists>es. callbacks (io_loop (snd (do_ssl_handshake s))) =
                       callbacks (io_loop s) @ es
                  \<and> (\<forall>e\<in>set es. e = Wrapper (close_callback s) None
                         \<or> (\<exists>d. e = Wrapper (read_callback s) (Some d)))))
    \<and> (r = Hs_done \<longrightarrow>
            fst (do_ssl_handshake s) = Return ()
            \<and> \<not> ssl_accepting (snd (do_ssl_handshake s))
            \<and> ssl_connect_callback (snd (do_ssl_handshake s)) = None
            \<and> callbacks (io_loop (snd (do_ssl_handshake s))) =
                callbacks (io_loop s) @
                  (case ssl_connect_callback s of
                     None \<Rightarrow> []
                   | Some c \<Rightarrow> [Wrapper (Some c) None]))"
proof -
  let ?s2 = "s\<lparr> handshake_reading := False, handshake_writing := False,
                net := (net s)\<lparr> handshakes := rest \<rparr> \<rparr>"
  have cl: "\<exists>es. callbacks (io_loop (close ?s2)) = callbacks (io_loop s) @ es
     \<and> (\<forall>e\<in>set es. e = Wrapper (close_callback s) None
            \<or> (\<exists>d. e = Wrapper (read_callback s) (Some d)))"
    using close_schedules [of ?s2] by simp
  show ?thesis
    using assms cl
    by (cases r) (simp_all add: do_ssl_handshake_def Let_def split: option.splits)
qed

lemma ssl_connect_run_deferred:
  assumes "is_ssl s0" and "ssl_accepting s0" and "\<not> holds_outside_stash c s0"
    and "\<forall>op\<in>set ops. c \<notin> op_callbacks op"
    and "run (Op_connect (Some c) # ops) s0 = Some s"
  shows "(ssl_accepting s \<longrightarrow> fired c s = fired c s0)
      \<and> (fired c s \<noteq> fired c s0 \<or> \<not> ssl_accepting s \<longrightarrow>
            Hs_done \<in> set (consumed (handshakes (net s0)) (handshakes (net s))))"
proof -
  have "calm c s0 s" using assms(1,4,5) by (rule ssl_connect_run_calm)
  with assms(2,3) show ?thesis by (auto simp: calm_def)
qed

lemmas witness_defs =
  run.simps step.simps connect_def SSLIOStream_connect_def IOStream_connect_def
  add_io_state_def handle_events_def handle_events_body_def handle_events_write_def
  handle_connect_def SSLIOStream_handle_connect_def IOStream_handle_connect_def
  handle_write_def handle_read_def do_ssl_handshake_def update_interest_def reading_def
  writing_def run_callback_def Let_def ssl_client_stream_def SSLIOStream_init_def
  IOStream_init_def example_net_def

text \<open>
  Claim C9. One call: on an SSL stream with a wrapped socket, take the outcome \<open>r\<close> of
  the next \<open>do_handshake\<close>. Needs-read: \<open>_do_ssl_handshake\<close> returns with
  \<open>handshake_reading\<close> set and schedules nothing. Every outcome other than success
  leaves \<open>ssl_accepting\<close> and the stashed connect callback as they were, and what it
  schedules (when it closes the stream) is the close callback or an until-close delivery
  to the read callback, never the stashed callback as such. Success is the only outcome
  that clears \<open>ssl_accepting\<close>; it empties the stash and schedules the stashed
  callback, if there is one.

  Every sequence of operations: take an SSL stream \<open>s0\<close> whose handshake is pending
  and that holds the callback \<open>c\<close> in no attribute, call \<open>connect\<close> with
  \<open>c\<close>, and let any public calls, readiness events and runs of scheduled callbacks
  follow, none of which is given \<open>c\<close> again. As long as \<open>ssl_accepting\<close> holds,
  \<open>c\<close> has been handed to the event loop as often as in \<open>s0\<close>, that is, not
  since; and when \<open>c\<close> has been scheduled, or \<open>ssl_accepting\<close> is cleared, one of
  the \<open>do_handshake\<close> calls made since \<open>s0\<close> has answered with success.
\<close>

theorem ssl_connect_callback_deferred:
  "(socket t = Some SSL_socket \<and> handshakes (net t) = r # rest \<longrightarrow>
      (r = Hs_want_read \<longrightarrow>
            fst (do_ssl_handshake t) = Return ()
            \<and> handshake_reading (snd (do_ssl_handshake t))
            \<and> \<not> handshake_writing (snd (do_ssl_handshake t))
            \<and> callbacks (io_loop (snd (do_ssl_handshake t))) = callbacks (io_loop t))
      \<and> (r \<noteq> Hs_done \<longrightarrow>
            ssl_accepting (snd (do_ssl_handshake t)) = ssl_accepting t
            \<and> ssl_connect_callback (snd (do_ssl_handshake t)) = ssl_connect_callback t
            \<and> (\<exists>es. callbacks (io_loop (snd (do_ssl_handshake t))) =
                       callbacks (io_loop t) @ es
                  \<and> (\<forall>e\<in>set es. e = Wrapper (close_callback t) None
                         \<or> (\<exists>d. e = Wrapper (read_callback t) (Some d)))))
      \<and> (r = Hs_done \<longrightarrow>
            fst (do_ssl_handshake t) = Return ()
            \<and> \<not> ssl_accepting (snd (do_ssl_handshake t))
            \<and> ssl_connect_callback (snd (do_ssl_handshake t)) = None
            \<and> callbacks (io_loop (snd (do_ssl_handshake t))) =
                callbacks (io_loop t) @
                  (case ssl_connect_callback t of
                     None \<Rightarrow> []
                   | Some c \<Rightarrow> [Wrapper (Some c) None])))
   \<and> (is_ssl s0 \<and> ssl_accepting s0 \<and> \<not> holds_outside_stash c s0
        \<and> (\<forall>op\<in>set ops. c \<notin> op_callbacks op)
        \<and> run (Op_connect (Some c) # ops) s0 = Some s \<longrightarrow>
      (ssl_accepting s \<longrightarrow> fired c s = fired c s0)
      \<and> (fired c s \<noteq> fired c s0 \<or> \<not> ssl_accepting s \<longrightarrow>
            Hs_done \<in> set (consumed (handshakes (net s0)) (handshakes (net s)))))"
  apply (rule conjI)
   apply (rule impI, erule conjE, rule do_ssl_handshake_outcomes; assumption)
  apply (rule impI, elim conjE, rule ssl_connect_run_deferred; assumption)
  done

text \<open>
  A client whose handshake first needs a write, then a read, and then succeeds. The
  connection completes on the first write event; after the second write event the
  stream waits for a read with \<open>ssl_accepting\<close> set and callback 9 not scheduled; the
  read event completes the handshake and schedules callback 9.
\<close>

theorem ssl_connect_callback_deferred_witness:
  "is_ssl ssl_client_stream \<and> ssl_accepting ssl_client_stream
    \<and> \<not> holds_outside_stash 9 ssl_client_stream
    \<and> fired 9 ssl_client_stream = 0
    \<and> map_option (\<lambda>s. (socket s, handshakes (net s), ssl_accepting s, fired 9 s))
          (run [Op_connect (Some 9), Op_handle_events {WRITE}] ssl_client_stream)
        = Some (Some SSL_socket, [Hs_want_read, Hs_done], True, 0)
    \<and> map_option (\<lambda>s. (handshake_reading s, ssl_accepting s, fired 9 s))
          (run [Op_connect (Some 9), Op_handle_events {WRITE}, Op_handle_events {WRITE}]
             ssl_client_stream)
        = Some (True, True, 0)
    \<and> map_option (\<lambda>s. (ssl_accepting s, callbacks (io_loop s),
                         consumed (handshakes (net ssl_client_stream)) (handshakes (net s))))
          (run [Op_connect (Some 9), Op_handle_events {WRITE}, Op_handle_events {WRITE},
                Op_handle_events {READ}] ssl_client_stream)
        = Some (False, [Wrapper (Some 9) None], [Hs_want_write, Hs_want_read, Hs_done])"
proof -
  let ?s0 = ssl_client_stream
  define s1 where "s1 = the (run [Op_connect (Some 9), Op_handle_events {WRITE}] ?s0)"
  define s2 where "s2 = the (run [Op_connect (Some 9), Op_handle_events {WRITE},
    Op_handle_events {WRITE}] ?s0)"
  define s3 where "s3 = the (run [Op_connect (Some 9), Op_handle_events {WRITE},
    Op_handle_events {WRITE}, Op_handle_events {READ}] ?s0)"
  have r: "run [Op_connect (Some 9), Op_handle_events {WRITE}] ?s0 = Some s1"
    "run (Op_connect (Some 9) # [Op_handle_events {WRITE}, Op_handle_events {WRITE}]) ?s0
       = Some s2"
    "run (Op_connect (Some 9) # [Op_handle_events {WRITE}, Op_handle_events {WRITE},
       Op_handle_events {READ}]) ?s0 = Some s3"
    by (simp_all add: s1_def s2_def s3_def witness_defs)
  have f0: "is_ssl ?s0" "ssl_accepting ?s0" "\<not> holds_outside_stash 9 ?s0" "fired 9 ?s0 = 0"
    by (simp_all add: witness_defs holds_outside_stash_def fired_def)
  have f1: "socket s1 = Some SSL_socket" "handshakes (net s1) = [Hs_want_read, Hs_done]"
    "ssl_accepting s1" "fired 9 s1 = 0"
    by (simp_all add: s1_def witness_defs fired_def)
  have f2: "handshake_reading s2" "ssl_accepting s2"
    by (simp_all add: s2_def witness_defs)
  have f3: "\<not> ssl_accepting s3" "callbacks (io_loop s3) = [Wrapper (Some 9) None]"
    "consumed (handshakes (net ?s0)) (handshakes (net s3))
       = [Hs_want_write, Hs_want_read, Hs_done]"
    by (simp_all add: s3_def witness_defs consumed_def)
  from ssl_connect_callback_deferred [of s1 Hs_want_read "[Hs_done]" ?s0 9
      "[Op_handle_events {WRITE}, Op_handle_events {WRITE}]" s2] f0 f1 f2 r(2)
  have a: "fired 9 s2 = 0" by simp
  from r f0 f1 f2 f3 a show ?thesis by simp
qed

section \<open>Claim about registering for reads\<close>

lemma write_pending_stream_eq:
  "write_pending_stream =
     (IOStream_init Plain_socket
        ((example_net [] [])\<lparr> send_calls := [''x''] \<rparr>) 104857600 4096)
       \<lparr> write_buffer := [''x''], write_buffer_frozen := True,
         io_state := Some {ERROR, WRITE},
         io_loop := \<lparr> handler = Some {ERROR, WRITE}, callbacks = [], started = 0 \<rparr> \<rparr>"
  by (auto simp: write_pending_stream_def IOStream_write_def check_closed_def
      IOStream_init_def example_net_def WRITE_BUFFER_CHUNK_SIZE_def handle_write_def
      IOStream_handle_write_def handle_write_loop.simps handle_write_round_def
      merge_prefix_def Let_def add_io_state_def maybe_add_error_listener_def)

text \<open>
  Claim C5 says that a read which cannot be completed after draining the socket has
  \<open>READ\<close> in the registered interest set when the operation returns. The code at
  a failing input: a stream with a write pending (registered for \<open>ERROR | WRITE\<close>
  by \<open>write\<close> after a would-block), nothing buffered and nothing to receive.
  \<open>read_until\<close> returns with the read armed and the registration still
  \<open>ERROR | WRITE\<close>, because \<open>_try_inline_read\<close> ends in
  \<open>_maybe_add_error_listener\<close>, which acts only on an unregistered stream with no
  pending callbacks.
\<close>

theorem try_inline_read_leaves_interest:
  "socket write_pending_stream \<noteq> None
    \<and> io_state write_pending_stream = Some {ERROR, WRITE}
    \<and> (\<exists>s'. read_until ''END'' 1 write_pending_stream = Some (Return (), s')
          \<and> read_callback s' = Some 1 \<and> read_delimiter s' = Some ''END''
          \<and> socket s' \<noteq> None
          \<and> io_state s' = Some {ERROR, WRITE}
          \<and> handler (io_loop s') = Some {ERROR, WRITE})"
  by (simp add: write_pending_stream_eq IOStream_init_def example_net_def
      read_until_def set_read_callback_def try_inline_read_def read_from_buffer_def
      stream_step_def check_closed_def inline_read_loop.simps read_to_buffer_def
      read_from_socket_def IOStream_read_from_socket_def maybe_add_error_listener_def
      Let_def)

section \<open>Claim about \<open>read_until\<close>\<close>

lemma str_find_Some:
  "str_find xs d = Some loc \<Longrightarrow> loc \<le> length xs \<and> prefix d (drop loc xs)"
  by (induction xs arbitrary: loc) (auto split: if_splits)

lemma str_find_first:
  "str_find xs d = Some loc \<Longrightarrow> p < loc \<Longrightarrow> \<not> prefix d (drop p xs)"
proof (induction xs arbitrary: loc p)
  case Nil
  then show ?case by (simp split: if_splits)
next
  case (Cons c cs)
  show ?case
  proof (cases "prefix d (c # cs)")
    case True
    with Cons.prems show ?thesis by simp
  next
    case False
    with Cons.prems obtain l where l: "str_find cs d = Some l" "loc = Suc l" by auto
    show ?thesis
    proof (cases p)
      case 0
      with False show ?thesis by simp
    next
      case (Suc q)
      with Cons.prems l have "q < l" by simp
      from Cons.IH [OF l(1) this] Suc show ?thesis by simp
    qed
  qed
qed

lemma prefix_append_short:
  "prefix d (xs @ ys) \<Longrightarrow> length d \<le> length xs \<Longrightarrow> prefix d xs"
  by (auto simp: prefix_append)

lemma str_find_append:
  "str_find xs d = Some loc \<Longrightarrow> str_find (xs @ ys) d = Some loc"
proof (induction xs arbitrary: loc)
  case Nil
  then show ?case by (cases ys) (auto split: if_splits)
next
  case (Cons c cs)
  show ?case
  proof (cases "prefix d (c # cs)")
    case True
    with Cons.prems prefix_prefix [of d "c # cs" ys] show ?thesis by simp
  next
    case False
    with Cons.prems obtain l where l: "str_find cs d = Some l" "loc = Suc l" by auto
    from str_find_Some [OF l(1)] have "length d \<le> length (c # cs)"
      by (auto dest: prefix_length_le)
    with False have "\<not> prefix d ((c # cs) @ ys)"
      using prefix_append_short by blast
    with Cons.IH [OF l(1)] l show ?thesis by simp
  qed
qed

lemma first_occurrence_payload:
  assumes "str_find xs d = Some loc"
  shows "suffix d (take (loc + length d) xs)
    \<and> length (take (loc + length d) xs) = loc + length d
    \<and> (\<forall>p. occurs_at d (take (loc + length d) xs) p = (p = loc))"
proof -
  let ?pay = "take (loc + length d) xs"
  from str_find_Some [OF assms] have loc: "loc \<le> length xs" "prefix d (drop loc xs)"
    by simp_all
  then obtain r where r: "drop loc xs = d @ r" by (auto simp: prefix_def)
  have len: "length (take loc xs) = loc" using loc by simp
  have "?pay = take loc xs @ take (length d) (drop loc xs)"
    by (simp add: take_add)
  then have pay: "?pay = take loc xs @ d" using r by simp
  have suf: "suffix d ?pay" by (simp add: pay suffix_def)
  have l: "length ?pay = loc + length d" using pay len by (metis length_append)
  have occ: "occurs_at d ?pay p = (p = loc)" for p
  proof
    assume "p = loc"
    then show "occurs_at d ?pay p" using len by (simp add: occurs_at_def pay)
  next
    assume o: "occurs_at d ?pay p"
    then have p: "p \<le> loc + length d" "prefix d (drop p ?pay)"
      using l by (simp_all add: occurs_at_def)
    from p(2) have "length d \<le> length (drop p ?pay)" by (rule prefix_length_le)
    with l p(1) have ple: "p \<le> loc" by simp
    have "prefix (drop p ?pay) (drop p xs)"
      by (simp add: drop_take take_is_prefix)
    with p(2) have "prefix d (drop p xs)" by (rule prefix_order.trans)
    with str_find_first [OF assms, of p] have "\<not> p < loc" by blast
    with ple show "p = loc" by simp
  qed
  from suf l occ show ?thesis by blast
qed

lemma search_loop_result_aux:
  assumes "search_loop f buf = Some rb"
  shows "buf \<noteq> [] \<longrightarrow>
       concat (snd rb) = concat buf \<and> snd rb \<noteq> [] \<and> f (hd (snd rb)) = fst rb"
proof (rule search_loop.raw_induct
    [where P = "\<lambda>f buf rb. buf \<noteq> [] \<longrightarrow>
       concat (snd rb) = concat buf \<and> snd rb \<noteq> [] \<and> f (hd (snd rb)) = fst rb",
     OF _ assms])
  fix loop :: "(bytes \<Rightarrow> nat option) \<Rightarrow> bytes list \<Rightarrow> (nat option \<times> bytes list) option"
    and f buf rb
  assume IH: "\<And>g b y. loop g b = Some y \<Longrightarrow>
      b \<noteq> [] \<longrightarrow> concat (snd y) = concat b \<and> snd y \<noteq> [] \<and> g (hd (snd y)) = fst y"
    and step: "(case f (hd buf) of
                  None \<Rightarrow> if length buf = 1 then Some (None, buf)
                           else loop f (double_prefix buf)
                | Some n \<Rightarrow> Some (Some n, buf)) = Some rb"
  show "buf \<noteq> [] \<longrightarrow>
      concat (snd rb) = concat buf \<and> snd rb \<noteq> [] \<and> f (hd (snd rb)) = fst rb"
  proof (cases "f (hd buf)")
    case (Some n)
    with step show ?thesis by auto
  next
    case None
    show ?thesis
    proof (cases "length buf = 1")
      case True
      with None step show ?thesis by auto
    next
      case False
      with None step have "loop f (double_prefix buf) = Some rb" by simp
      from IH [OF this] show ?thesis
        by (simp add: double_prefix_def Let_def merge_prefix_nonempty merge_prefix_concat)
    qed
  qed
qed

lemma search_loop_result:
  "search_loop f buf = Some (r, buf') \<Longrightarrow> buf \<noteq> [] \<Longrightarrow>
     concat buf' = concat buf \<and> buf' \<noteq> [] \<and> f (hd buf') = r"
  using search_loop_result_aux [of f buf "(r, buf')"] by simp


lemma stream_step_idle:
  "streaming_callback s = None \<Longrightarrow> stream_step s = s"
  by (simp add: stream_step_def)

lemma hd_concat_tl: "xs \<noteq> [] \<Longrightarrow> concat xs = hd xs @ concat (tl xs)"
  by (cases xs) auto

text \<open>
  Claim C2, as amended. Take a stream on which \<open>read_until(d, cb)\<close> is armed
  (delimiter \<open>d\<close>, no exact count armed, no streaming callback installed) and a
  dispatch \<open>_read_from_buffer\<close> that completes the read. Then \<open>d\<close> occurs in
  the bytes buffered at that dispatch, which are the residue left by earlier reads
  followed by the bytes that arrived since. With \<open>loc\<close> its first occurrence
  there, the payload scheduled for the completion callback is the first
  \<open>loc + len(d)\<close> buffered bytes: it ends with \<open>d\<close>, \<open>d\<close> occurs in it
  at offset \<open>loc\<close> and nowhere else, and the bytes after it stay in the read
  buffer.
\<close>

theorem read_until_first_occurrence:
  assumes "read_delimiter s = Some d" and "read_bytes_fld s = None"
    and "streaming_callback s = None"
    and "read_from_buffer s = Some (True, s')"
  shows "\<exists>loc. str_find (concat (read_buffer s)) d = Some loc
    \<and> callbacks (io_loop s') =
        callbacks (io_loop s) @
          [Wrapper (read_callback s) (Some (take (loc + length d) (concat (read_buffer s))))]
    \<and> suffix d (take (loc + length d) (concat (read_buffer s)))
    \<and> (\<forall>p. occurs_at d (take (loc + length d) (concat (read_buffer s))) p = (p = loc))
    \<and> concat (read_buffer s') = drop (loc + length d) (concat (read_buffer s))
    \<and> read_callback s' = None \<and> read_delimiter s' = None"
proof -
  from assms have ne: "read_buffer s \<noteq> []"
    by (auto simp: read_from_buffer_def stream_step_idle split: if_splits)
  with assms have fin: "finish_search s (\<lambda>s'. s'\<lparr> read_delimiter := None \<rparr>)
      (search_loop (delimiter_search d) (read_buffer s)) = Some (True, s')"
    by (simp add: read_from_buffer_def stream_step_idle)
  then obtain n buf where sl: "search_loop (delimiter_search d) (read_buffer s) = Some (Some n, buf)"
    by (auto simp: finish_search_def split: option.splits prod.splits)
  from search_loop_result [OF sl ne]
  have buf: "concat buf = concat (read_buffer s)" "buf \<noteq> []"
    "delimiter_search d (hd buf) = Some n"
    by simp_all
  from buf(3) obtain loc where loc: "str_find (hd buf) d = Some loc" "n = loc + length d"
    by (auto simp: delimiter_search_def split: option.splits)
  have "concat (read_buffer s) = hd buf @ concat (tl buf)"
    using buf(1,2) hd_concat_tl by metis
  with str_find_append [OF loc(1)]
  have found: "str_find (concat (read_buffer s)) d = Some loc" by simp
  let ?s1 = "s\<lparr> read_buffer := buf, read_callback := None, streaming_callback := None,
                 read_delimiter := None \<rparr>"
  from fin sl have s': "s' = run_callback (read_callback s) (Some (fst (consume (int n) ?s1)))
      (snd (consume (int n) ?s1))"
    by (simp add: finish_search_def Let_def split_beta)
  have data: "fst (consume (int n) ?s1) = take n (concat (read_buffer s))"
    using buf(1) by (simp add: consume_fst)
  have rest: "concat (read_buffer (snd (consume (int n) ?s1))) = drop n (concat (read_buffer s))"
    using buf(1) by (simp add: consume_concat)
  from first_occurrence_payload [OF found] found s' data rest loc(2)
  show ?thesis by simp
qed

text \<open>
  The delimiter \<open>--\<close> split across the chunks \<open>foo-\<close> and \<open>-bar\<close>: the
  callback is scheduled with \<open>foo--\<close> and \<open>bar\<close> stays buffered.
\<close>

lemma double_prefix_example: "double_prefix [''foo-'', ''-bar''] = [''foo--bar'']"
  by (simp add: double_prefix_def merge_prefix_def merge_prefix_loop.simps Let_def)

lemma search_loop_example:
  "search_loop (delimiter_search ''--'') [''foo-'', ''-bar''] = Some (Some 5, [''foo--bar''])"
  apply (subst search_loop.simps)
  apply (simp add: delimiter_search_def double_prefix_example)
  apply (subst search_loop.simps)
  apply (simp add: delimiter_search_def)
  done

theorem read_until_first_occurrence_witness:
  "read_delimiter delimited_stream = Some ''--''
    \<and> read_bytes_fld delimited_stream = None
    \<and> streaming_callback delimited_stream = None
    \<and> (\<exists>s'. read_from_buffer delimited_stream = Some (True, s')
          \<and> callbacks (io_loop s') = [Wrapper (Some 1) (Some ''foo--'')]
          \<and> concat (read_buffer s') = ''bar'')"
proof -
  have a: "read_delimiter delimited_stream = Some ''--''"
    "read_bytes_fld delimited_stream = None"
    "streaming_callback delimited_stream = None"
    "callbacks (io_loop delimited_stream) = []"
    "read_callback delimited_stream = Some 1"
    "read_buffer delimited_stream = [''foo-'', ''-bar'']"
    by (simp_all add: delimited_stream_def IOStream_init_def)
  have "\<exists>s'. read_from_buffer delimited_stream = Some (True, s')"
    using a
    by (simp add: read_from_buffer_def stream_step_idle search_loop_example
        finish_search_def Let_def split_beta)
  then obtain s' where run: "read_from_buffer delimited_stream = Some (True, s')" ..
  have f: "str_find ''foo--bar'' ''--'' = Some 3" by simp
  from read_until_first_occurrence [OF a(1,2,3) run] a f
  have "callbacks (io_loop s') = [Wrapper (Some 1) (Some ''foo--'')]
      \<and> concat (read_buffer s') = ''bar''"
    by simp
  with run a show ?thesis by simp
qed

lemma search_loop_residue:
  "search_loop (delimiter_search ''--'') [''b--c''] = Some (Some 3, [''b--c''])"
  by (subst search_loop.simps) (simp add: delimiter_search_def)

text \<open>
  Claim C2 as stated places the delimiter in the bytes that arrived after arming. A
  stream that still buffers \<open>b--c\<close> from an earlier read, with nothing more to
  receive: \<open>read_until\<close> completes at once with \<open>b--\<close>, taken from the
  residue; no byte arrived after arming (the socket was not read), so the delimiter
  does not occur among such bytes.
\<close>

theorem read_until_residue_counterexample:
  "recvs (net residue_stream) = []
    \<and> (\<exists>s'. read_until ''--'' 1 residue_stream = Some (Return (), s')
          \<and> callbacks (io_loop s') = [Wrapper (Some 1) (Some ''b--'')]
          \<and> concat (read_buffer s') = ''c''
          \<and> net s' = net residue_stream)
    \<and> str_find [] ''--'' = None"
  by (simp add: residue_stream_def IOStream_init_def example_net_def read_until_def
      set_read_callback_def try_inline_read_def read_from_buffer_def stream_step_def
      search_loop_residue finish_search_def consume_def merge_prefix_def
      merge_prefix_loop.simps run_callback_def Let_def split_beta)

end
